theory Spec2Isabelle
  imports Main "HOL-Library.Char_ord" "HOL-Library.List_Lexorder" "HOL-Library.AList"
begin

section \<open>Python values and exceptions\<close>

text \<open>
  Identifiers (raw stop ids, complex ids, route ids, trip ids) are Python strings, here
  \<^typ>\<open>string\<close>. A Python call either returns or raises; a raising call is \<open>Inl e\<close>.
  \<open>NotBuilt\<close> is the \<open>RuntimeError\<close> of \<open>_assert_built\<close>; \<open>NetworkXError\<close>,
  \<open>NodeNotFound\<close> and \<open>NetworkXNoPath\<close> are the exceptions of the graph library.
\<close>

datatype py_error =
  IndexError | AttributeError | KeyError | NotBuilt | NetworkXError | NodeNotFound | NetworkXNoPath

text \<open>Truthiness of \<open>dict.get\<close> on string values: \<open>None\<close> and the empty string are falsy.\<close>

definition truthy :: "string option \<Rightarrow> bool" where
  "truthy v = (case v of None \<Rightarrow> False | Some s \<Rightarrow> s \<noteq> [])"

text \<open>\<open>s[-1] in ['N', 'S']\<close> for a non-empty \<open>s\<close>.\<close>

definition has_direction_suffix :: "string \<Rightarrow> bool" where
  "has_direction_suffix s = (last s = CHR ''N'' \<or> last s = CHR ''S'')"


section \<open>complexes.py: ComplexesData\<close>

record info =
  num_stations :: int
  gtfs_stop_ids :: "string list"

record ComplexesData =
  complex_id_by_gtfs :: "string \<rightharpoonup> string"
  complex_info :: "string \<rightharpoonup> info"
  stop_name_map :: "string \<rightharpoonup> string"

text \<open>
  A registry row after lines 46-50 of \<open>__init__\<close>: the complex id, the parsed station
  count and \<open>gtfs_list\<close>, the member stop ids in registry order.
\<close>

type_synonym registry_row = "string \<times> int \<times> string list"

text \<open>
  Lines 56-60: every member id is stored, and a member id ending in N or S is also
  stored without its last character. \<open>gtfs[-1]\<close> raises on an empty member id (the
  filter of line 50 lets none through).
\<close>

fun store_gtfs :: "string \<Rightarrow> string list \<Rightarrow> (string \<rightharpoonup> string) \<Rightarrow> py_error + (string \<rightharpoonup> string)" where
  "store_gtfs complex_id [] m = Inr m"
| "store_gtfs complex_id (gtfs # rest) m =
     (if gtfs = [] then Inl IndexError
      else if has_direction_suffix gtfs
        then store_gtfs complex_id rest (m(gtfs \<mapsto> complex_id, butlast gtfs \<mapsto> complex_id))
        else store_gtfs complex_id rest (m(gtfs \<mapsto> complex_id)))"

fun load_rows :: "registry_row list \<Rightarrow> ComplexesData \<Rightarrow> py_error + ComplexesData" where
  "load_rows [] self = Inr self"
| "load_rows ((complex_id, n, gtfs_list) # rows) self =
     (case store_gtfs complex_id gtfs_list (complex_id_by_gtfs self) of
        Inl e \<Rightarrow> Inl e
      | Inr m \<Rightarrow>
          load_rows rows
            (self\<lparr>complex_info := (complex_info self)
                      (complex_id \<mapsto> \<lparr>num_stations = n, gtfs_stop_ids = gtfs_list\<rparr>),
                  complex_id_by_gtfs := m\<rparr>))"

text \<open>\<open>dict(zip(stop_id, stop_name))\<close>: a later row of stops.txt overwrites an earlier one.\<close>

definition dict_of :: "('k \<times> 'v) list \<Rightarrow> ('k \<rightharpoonup> 'v)" where
  "dict_of kvs = fold (\<lambda>(k, v) m. m(k \<mapsto> v)) kvs Map.empty"

definition ComplexesData_init :: "registry_row list \<Rightarrow> (string \<times> string) list \<Rightarrow> py_error + ComplexesData" where
  "ComplexesData_init rows stops_rows =
     load_rows rows
       \<lparr>complex_id_by_gtfs = Map.empty, complex_info = Map.empty,
        stop_name_map = dict_of stops_rows\<rparr>"

text \<open>Lines 62-80.\<close>

definition get_complex_id_by_gtfs_stop_id :: "ComplexesData \<Rightarrow> string \<Rightarrow> py_error + string option" where
  "get_complex_id_by_gtfs_stop_id self gtfs_stop_id =
     (let complex_id = complex_id_by_gtfs self gtfs_stop_id in
      if truthy complex_id then Inr complex_id
      else if gtfs_stop_id = [] then Inl IndexError
      else if has_direction_suffix gtfs_stop_id
        then Inr (complex_id_by_gtfs self (butlast gtfs_stop_id))
        else Inr (complex_id_by_gtfs self (gtfs_stop_id @ ''N'')))"

text \<open>Lines 89-94: the stored dict \<open>info\<close> has two keys, so \<open>if info\<close> holds whenever it is found.\<close>

definition get_gtfs_stop_ids_by_complex_id :: "ComplexesData \<Rightarrow> string \<Rightarrow> string list option" where
  "get_gtfs_stop_ids_by_complex_id self complex_id =
     (case complex_info self complex_id of None \<Rightarrow> None | Some i \<Rightarrow> Some (gtfs_stop_ids i))"

text \<open>Lines 96-120.\<close>

definition get_names_of_stations :: "ComplexesData \<Rightarrow> string \<Rightarrow> string list option" where
  "get_names_of_stations self complex_id =
     (case get_gtfs_stop_ids_by_complex_id self complex_id of
        None \<Rightarrow> None
      | Some ids \<Rightarrow>
          if ids = [] then None
          else Some (concat (map (\<lambda>stop_id.
                       case stop_name_map self stop_id of
                         None \<Rightarrow> []
                       | Some name \<Rightarrow> if name \<noteq> [] then [name] else []) ids)))"

text \<open>Lines 122-125.\<close>

definition get_station_name :: "ComplexesData \<Rightarrow> string \<Rightarrow> string" where
  "get_station_name self complex_id =
     (case get_names_of_stations self complex_id of
        None \<Rightarrow> ''Unknown''
      | Some names \<Rightarrow> (case names of [] \<Rightarrow> ''Unknown'' | name # _ \<Rightarrow> name))"

text \<open>The member stop ids a registry declares, over all rows.\<close>

definition registered :: "registry_row list \<Rightarrow> string set" where
  "registered rows = (\<Union>(c, n, gtfs_list) \<in> set rows. set gtfs_list)"


section \<open>The source tables\<close>

text \<open>
  The rows of trips.txt and stop_times.txt that the code reads, in file order, and the
  four inputs of a build. Parsing the files is outside the model.
\<close>

record trip =
  route_id :: string
  direction_id :: int
  trip_id :: string

record stop_time =
  st_trip_id :: string
  stop_id :: string
  stop_sequence :: int

record sources =
  complexes_csv :: "registry_row list"
  stops_txt :: "(string \<times> string) list"
  trips_txt :: "trip list"
  stop_times_txt :: "stop_time list"

text \<open>\<open>query("route_id==@route and direction_id==@direction")\<close>.\<close>

definition trips_of :: "trip list \<Rightarrow> string \<Rightarrow> int \<Rightarrow> trip list" where
  "trips_of ts route direction =
     filter (\<lambda>t. route_id t = route \<and> direction_id t = direction) ts"

text \<open>
  \<open>.query("trip_id==@trip_id").sort_values("stop_sequence").stop_id.tolist()\<close>. Rows
  with equal \<open>stop_sequence\<close> are kept in file order here; pandas leaves their order open.
\<close>

definition trip_stops :: "stop_time list \<Rightarrow> string \<Rightarrow> string list" where
  "trip_stops sts tid =
     map stop_id (sort_key stop_sequence (filter (\<lambda>r. st_trip_id r = tid) sts))"

text \<open>\<open>groupby("trip_id").size()\<close>: one count per trip id, the trip ids ascending.\<close>

definition trip_counts :: "stop_time list \<Rightarrow> (string \<times> nat) list" where
  "trip_counts sts =
     map (\<lambda>k. (k, length (filter (\<lambda>r. st_trip_id r = k) sts)))
       (sort (remdups (map st_trip_id sts)))"

text \<open>\<open>idxmax()\<close>: the first key holding the largest count.\<close>

fun idxmax_from :: "string \<times> nat \<Rightarrow> (string \<times> nat) list \<Rightarrow> string" where
  "idxmax_from best [] = fst best"
| "idxmax_from best (kc # rest) = idxmax_from (if snd best < snd kc then kc else best) rest"

text \<open>\<open>unique()\<close>: the distinct values in order of first appearance.\<close>

definition unique :: "'a list \<Rightarrow> 'a list" where
  "unique xs = rev (remdups (rev xs))"


section \<open>The graph library, as the code uses it\<close>

text \<open>
  A \<open>networkx\<close> graph restricted to what the builders store. \<open>nodes\<close> is the node
  dictionary in insertion order, each node with its \<open>stop_name\<close> and \<open>gtfs_ids\<close>
  attributes. \<open>edges\<close> holds the \<open>lines\<close> attribute of every edge in insertion order; an
  undirected edge is stored once, under the orientation it was first added with.
\<close>

record node_attr =
  stop_name :: string
  gtfs_ids :: "string list option"

record graph =
  directed :: bool
  nodes :: "(string \<times> node_attr) list"
  edges :: "((string \<times> string) \<times> string list) list"

definition empty_graph :: "bool \<Rightarrow> graph" where
  "empty_graph d = \<lparr>directed = d, nodes = [], edges = []\<rparr>"

definition has_node :: "graph \<Rightarrow> string \<Rightarrow> bool" where
  "has_node g n = (map_of (nodes g) n \<noteq> None)"

text \<open>\<open>G.add_node(n, stop_name=..., gtfs_ids=...)\<close>.\<close>

definition add_node :: "graph \<Rightarrow> string \<Rightarrow> node_attr \<Rightarrow> graph" where
  "add_node g n a = g\<lparr>nodes := AList.update n a (nodes g)\<rparr>"

text \<open>The key under which the edge between \<open>u\<close> and \<open>v\<close> is, or would be, stored.\<close>

definition edge_key :: "graph \<Rightarrow> string \<Rightarrow> string \<Rightarrow> string \<times> string" where
  "edge_key g u v =
     (if directed g \<or> map_of (edges g) (u, v) \<noteq> None then (u, v) else (v, u))"

text \<open>\<open>G[u][v]['lines']\<close> where \<open>G.has_edge(u, v)\<close>.\<close>

definition edge_lines :: "graph \<Rightarrow> string \<Rightarrow> string \<Rightarrow> string list option" where
  "edge_lines g u v = map_of (edges g) (edge_key g u v)"

definition has_edge :: "graph \<Rightarrow> string \<Rightarrow> string \<Rightarrow> bool" where
  "has_edge g u v = (edge_lines g u v \<noteq> None)"

text \<open>
  Lines 145-149 of mta_graph.py (96-100 of mta_complex_graph.py): append the route to the
  lines of an existing edge unless it is there, else add the edge with \<open>lines=[route]\<close>.
  Both endpoints are nodes when this runs (the node loop precedes it), so \<open>add_edge\<close>
  creates no node.
\<close>

definition add_line :: "string \<Rightarrow> string \<Rightarrow> string \<Rightarrow> graph \<Rightarrow> graph" where
  "add_line route u v g =
     (case edge_lines g u v of
        Some lines \<Rightarrow>
          if route \<in> set lines then g
          else g\<lparr>edges := AList.update (edge_key g u v) (lines @ [route]) (edges g)\<rparr>
      | None \<Rightarrow> g\<lparr>edges := edges g @ [((u, v), [route])]\<rparr>)"

text \<open>Lines 154-155: \<open>data['lines'] = sorted(data['lines'])\<close> for every edge.\<close>

definition sort_lines :: "graph \<Rightarrow> graph" where
  "sort_lines g = g\<lparr>edges := map (\<lambda>(k, lines). (k, sort lines)) (edges g)\<rparr>"

text \<open>
  The neighbours of \<open>u\<close> in adjacency order: its successors in a directed graph, the
  other endpoints of its edges in an undirected one.
\<close>

definition adj :: "graph \<Rightarrow> string \<Rightarrow> string list" where
  "adj g u =
     concat (map (\<lambda>((a, b), lines).
                    if a = u then [b] else if \<not> directed g \<and> b = u then [a] else [])
              (edges g))"

definition verts :: "graph \<Rightarrow> string set" where
  "verts g = set (map fst (nodes g)) \<union> set (map (fst \<circ> fst) (edges g))
               \<union> set (map (snd \<circ> fst) (edges g))"

text \<open>
  Breadth-first search by levels. \<open>frontier\<close> holds, newest node first, every shortest
  path from the source to a node of the current level; \<open>visited\<close> holds the nodes of all
  levels so far. The search stops at the first level that contains the target and
  returns all its paths to it, or returns no path when a level is empty.
\<close>

definition grow :: "graph \<Rightarrow> string list \<Rightarrow> string list \<Rightarrow> string list list" where
  "grow g visited p =
     (case p of
        [] \<Rightarrow> []
      | u # _ \<Rightarrow> map (\<lambda>v. v # p) (filter (\<lambda>v. v \<notin> set visited) (adj g u)))"

definition expand :: "graph \<Rightarrow> string list \<Rightarrow> string list list \<Rightarrow> string list list" where
  "expand g visited frontier = concat (map (grow g visited) frontier)"

definition arrived :: "string \<Rightarrow> string list list \<Rightarrow> string list list" where
  "arrived target frontier = filter (\<lambda>p. case p of [] \<Rightarrow> False | u # _ \<Rightarrow> u = target) frontier"

function bfs :: "graph \<Rightarrow> string \<Rightarrow> string list \<Rightarrow> string list list \<Rightarrow> string list list" where
  "bfs g target visited frontier =
     (if arrived target frontier \<noteq> [] then map rev (arrived target frontier)
      else if expand g visited frontier = [] then []
      else bfs g target (visited @ map hd (expand g visited frontier))
             (expand g visited frontier))"
  by pat_completeness auto
termination
proof (relation "measure (\<lambda>(g, target, visited, frontier). card (verts g - set visited))")
  show "wf (measure (\<lambda>(g, target, visited, frontier). card (verts g - set visited)))"
    by simp
next
  fix g :: graph and target :: string and visited :: "string list"
    and frontier :: "string list list"
  assume ne: "expand g visited frontier \<noteq> []"
  then obtain q where q: "q \<in> set (expand g visited frontier)"
    by (cases "expand g visited frontier") auto
  then obtain p where "p \<in> set frontier" and qp: "q \<in> set (grow g visited p)"
    by (auto simp: expand_def)
  then obtain u rest v where p: "p = u # rest" and v: "v \<in> set (adj g u)" "v \<notin> set visited"
    and qv: "q = v # p"
    by (cases p) (auto simp: grow_def)
  from v(1) obtain a b lines where e: "((a, b), lines) \<in> set (edges g)" "v = a \<or> v = b"
    by (auto simp: adj_def split: if_splits)
  then have "v \<in> verts g"
    by (force simp: verts_def)
  moreover have "v \<in> set (map hd (expand g visited frontier))"
    using q qv by force
  ultimately have "verts g - set (visited @ map hd (expand g visited frontier))
                     \<subset> verts g - set visited"
    using v(2) by auto
  moreover have "finite (verts g - set visited)"
    by (simp add: verts_def)
  ultimately have "card (verts g - set (visited @ map hd (expand g visited frontier)))
                     < card (verts g - set visited)"
    by (rule psubset_card_mono [rotated])
  then show "((g, target, visited @ map hd (expand g visited frontier),
               expand g visited frontier), (g, target, visited, frontier))
             \<in> measure (\<lambda>(g, target, visited, frontier). card (verts g - set visited))"
    by simp
qed

declare bfs.simps [simp del]

text \<open>
  \<open>nx.shortest_path(G, source, target)\<close>: \<open>NodeNotFound\<close> when an end is not a node,
  \<open>NetworkXNoPath\<close> when the target is not reachable, else a path with the fewest
  edges. The library does not say which of several such paths it returns; the model
  returns the first one found, and no theorem below depends on the choice.
\<close>

definition nx_shortest_path :: "graph \<Rightarrow> string \<Rightarrow> string \<Rightarrow> py_error + string list" where
  "nx_shortest_path g source target =
     (if has_node g source \<and> has_node g target
      then (case bfs g target [source] [[source]] of
              [] \<Rightarrow> Inl NetworkXNoPath
            | p # _ \<Rightarrow> Inr p)
      else Inl NodeNotFound)"

text \<open>
  \<open>list(nx.all_shortest_paths(G, source, target))\<close>: \<open>NodeNotFound\<close> when the source
  is not a node, \<open>NetworkXNoPath\<close> when the target was not reached (a target that is
  not a node included), else every path with the fewest edges, in an order the library
  leaves open.
\<close>

definition nx_all_shortest_paths :: "graph \<Rightarrow> string \<Rightarrow> string \<Rightarrow> py_error + string list list" where
  "nx_all_shortest_paths g source target =
     (if has_node g source
      then (if has_node g target
            then (case bfs g target [source] [[source]] of
                    [] \<Rightarrow> Inl NetworkXNoPath
                  | p # ps \<Rightarrow> Inr (p # ps))
            else Inl NetworkXNoPath)
      else Inl NodeNotFound)"

text \<open>\<open>list(G.successors(n))\<close> on a \<open>DiGraph\<close>: \<open>NetworkXError\<close> when \<open>n\<close> is not a node.\<close>

definition nx_successors :: "graph \<Rightarrow> string \<Rightarrow> py_error + string list" where
  "nx_successors g n = (if has_node g n then Inr (adj g n) else Inl NetworkXError)"


section \<open>The class-level state\<close>

text \<open>
  Both classes keep the same five class attributes, all \<open>None\<close> until a build assigns
  them. \<open>G\<close> is assigned last (line 157, line 108).
\<close>

record graph_state =
  G :: "graph option"
  stops :: "(string \<times> string) list option"
  trips :: "trip list option"
  stop_times :: "stop_time list option"
  complexes :: "ComplexesData option"

definition not_built :: graph_state where
  "not_built = \<lparr>G = None, stops = None, trips = None, stop_times = None, complexes = None\<rparr>"


section \<open>mta_graph.py: SubwayGraph\<close>

text \<open>Lines 286-312. Reading an attribute of \<open>None\<close> raises \<open>AttributeError\<close>.\<close>

definition SubwayGraph_ordered_stops :: "graph_state \<Rightarrow> string \<Rightarrow> int \<Rightarrow> py_error + string list" where
  "SubwayGraph_ordered_stops cls route direction =
     (case trips cls of
        None \<Rightarrow> Inl AttributeError
      | Some ts \<Rightarrow>
          if route = ''A'' \<or> route = ''4'' then
            (case stop_times cls of
               None \<Rightarrow> Inl AttributeError
             | Some sts \<Rightarrow>
                 let trip_ids = map trip_id (trips_of ts route direction);
                     stop_times' = filter (\<lambda>r. st_trip_id r \<in> set trip_ids) sts
                 in (case trip_counts stop_times' of
                       [] \<Rightarrow> Inr []
                     | kc # rest \<Rightarrow> Inr (trip_stops stop_times' (idxmax_from kc rest))))
          else
            (case trips_of ts route direction of
               [] \<Rightarrow> Inl IndexError
             | t # _ \<Rightarrow>
                 (case stop_times cls of
                    None \<Rightarrow> Inl AttributeError
                  | Some sts \<Rightarrow> Inr (trip_stops sts (trip_id t)))))"

text \<open>Lines 121-125: the complex ids of the stops that resolve, in order.\<close>

fun resolve_stops :: "ComplexesData \<Rightarrow> string list \<Rightarrow> string list \<Rightarrow> py_error + string list" where
  "resolve_stops cx [] complex_ids = Inr complex_ids"
| "resolve_stops cx (stop # rest) complex_ids =
     (case get_complex_id_by_gtfs_stop_id cx stop of
        Inl e \<Rightarrow> Inl e
      | Inr None \<Rightarrow> resolve_stops cx rest complex_ids
      | Inr (Some complex_id) \<Rightarrow>
          if complex_id \<noteq> [] then resolve_stops cx rest (complex_ids @ [complex_id])
          else resolve_stops cx rest complex_ids)"

text \<open>Lines 128-136: a complex that is not yet a node is added with its name and member ids.\<close>

fun add_nodes :: "ComplexesData \<Rightarrow> string list \<Rightarrow> graph \<Rightarrow> graph" where
  "add_nodes cx [] g = g"
| "add_nodes cx (complex_id # rest) g =
     add_nodes cx rest
       (if has_node g complex_id then g
        else add_node g complex_id
               \<lparr>stop_name = get_station_name cx complex_id,
                gtfs_ids = get_gtfs_stop_ids_by_complex_id cx complex_id\<rparr>)"

text \<open>Lines 139-149: for every \<open>i\<close>, in order, an edge to every later position \<open>j\<close>.\<close>

fun add_pair_edges :: "string \<Rightarrow> string list \<Rightarrow> graph \<Rightarrow> graph" where
  "add_pair_edges route [] g = g"
| "add_pair_edges route (u # later) g =
     add_pair_edges route later (fold (add_line route u) later g)"

text \<open>
  The sequence of complex ids of one (route, direction): lines 118-125. The \<open>try\<close> of
  line 116 catches whatever this raises.
\<close>

definition SubwayGraph_complex_ids :: "graph_state \<Rightarrow> string \<Rightarrow> int \<Rightarrow> py_error + string list" where
  "SubwayGraph_complex_ids cls route direction =
     (case SubwayGraph_ordered_stops cls route direction of
        Inl e \<Rightarrow> Inl e
      | Inr stops_list \<Rightarrow>
          (case complexes cls of
             None \<Rightarrow> if stops_list = [] then Inr [] else Inl AttributeError
           | Some cx \<Rightarrow> resolve_stops cx stops_list []))"

text \<open>
  Lines 116-151, the body of the two loops: a (route, direction) that raises is reported
  and skipped. Nothing is written to the graph before the last statement that can raise.
\<close>

definition SubwayGraph_process :: "graph_state \<Rightarrow> string \<Rightarrow> int \<Rightarrow> graph \<Rightarrow> graph" where
  "SubwayGraph_process cls route direction g =
     (case SubwayGraph_complex_ids cls route direction of
        Inl e \<Rightarrow> g
      | Inr complex_ids \<Rightarrow>
          (case complexes cls of
             None \<Rightarrow> g
           | Some cx \<Rightarrow> add_pair_edges route complex_ids (add_nodes cx complex_ids g)))"

text \<open>
  Lines 97-157. \<open>ComplexesData()\<close> loads the registry and the stop names; an exception
  it raises is not caught, so the call raises and the class attributes stay as they
  were. \<open>_stops\<close> is stored and never read. The warning that line 151 prints for a
  skipped (route, direction) is not modelled.
\<close>

definition SubwayGraph_build_graph :: "graph_state \<Rightarrow> sources \<Rightarrow> py_error + graph_state" where
  "SubwayGraph_build_graph cls src =
     (case ComplexesData_init (complexes_csv src) (stops_txt src) of
        Inl e \<Rightarrow> Inl e
      | Inr cx \<Rightarrow>
          let cls1 = cls\<lparr>complexes := Some cx, stops := Some (stops_txt src),
                        trips := Some (trips_txt src),
                        stop_times := Some (stop_times_txt src)\<rparr>;
              routes = unique (map route_id (trips_txt src));
              g = fold (\<lambda>route. fold (SubwayGraph_process cls1 route) [0, 1]) routes
                    (empty_graph True)
          in Inr (cls1\<lparr>G := Some (sort_lines g)\<rparr>))"

subsection \<open>Queries\<close>

text \<open>Lines 190-194.\<close>

definition stop_name_to_complex_id :: "graph_state \<Rightarrow> string \<Rightarrow> py_error + string option" where
  "stop_name_to_complex_id cls name =
     (case G cls of
        None \<Rightarrow> Inl NotBuilt
      | Some g \<Rightarrow>
          Inr (case filter (\<lambda>(node, d). stop_name d = name) (nodes g) of
                 [] \<Rightarrow> None
               | (node, d) # _ \<Rightarrow> Some node))"

text \<open>Lines 210-211.\<close>

definition complex_id_to_name :: "graph_state \<Rightarrow> string \<Rightarrow> py_error + string option" where
  "complex_id_to_name cls complex_id =
     (case G cls of
        None \<Rightarrow> Inl NotBuilt
      | Some g \<Rightarrow> Inr (map_option stop_name (map_of (nodes g) complex_id)))"

text \<open>Lines 234-239 and 260-265: the sorted set of the lines on the out- and in-edges.\<close>

definition incident_lines :: "graph \<Rightarrow> string \<Rightarrow> string list" where
  "incident_lines g c =
     sort (remdups
       (concat (map snd (filter (\<lambda>((u, v), lines). u = c) (edges g)))
        @ concat (map snd (filter (\<lambda>((u, v), lines). v = c) (edges g)))))"

text \<open>Lines 227-239.\<close>

definition lines_at_gtfs_stop_id :: "graph_state \<Rightarrow> string \<Rightarrow> py_error + string list" where
  "lines_at_gtfs_stop_id cls gtfs_stop_id =
     (case G cls of
        None \<Rightarrow> Inl NotBuilt
      | Some g \<Rightarrow>
          (case complexes cls of
             None \<Rightarrow> Inl AttributeError
           | Some cx \<Rightarrow>
               (case get_complex_id_by_gtfs_stop_id cx gtfs_stop_id of
                  Inl e \<Rightarrow> Inl e
                | Inr None \<Rightarrow> Inr []
                | Inr (Some complex_id) \<Rightarrow>
                    if complex_id = [] \<or> \<not> has_node g complex_id then Inr []
                    else Inr (incident_lines g complex_id))))"

text \<open>Lines 255-265.\<close>

definition lines_at_complex_id :: "graph_state \<Rightarrow> string \<Rightarrow> py_error + string list" where
  "lines_at_complex_id cls complex_id =
     (case G cls of
        None \<Rightarrow> Inl NotBuilt
      | Some g \<Rightarrow>
          if complex_id = [] \<or> \<not> has_node g complex_id then Inr []
          else Inr (incident_lines g complex_id))"

text \<open>Lines 329-330.\<close>

definition successors :: "graph_state \<Rightarrow> string \<Rightarrow> py_error + string list" where
  "successors cls complex_id =
     (case G cls of None \<Rightarrow> Inl NotBuilt | Some g \<Rightarrow> nx_successors g complex_id)"

text \<open>Lines 348-349.\<close>

definition graph_connecting_lines :: "graph \<Rightarrow> string \<Rightarrow> string \<Rightarrow> string list" where
  "graph_connecting_lines g u v = (case edge_lines g u v of Some lines \<Rightarrow> lines | None \<Rightarrow> [])"

definition connecting_lines :: "graph_state \<Rightarrow> string \<Rightarrow> string \<Rightarrow> py_error + string list" where
  "connecting_lines cls u v =
     (case G cls of None \<Rightarrow> Inl NotBuilt | Some g \<Rightarrow> Inr (graph_connecting_lines g u v))"

text \<open>Lines 369-373: only \<open>NetworkXNoPath\<close> is caught.\<close>

definition shortest_path :: "graph_state \<Rightarrow> string \<Rightarrow> string \<Rightarrow> py_error + string list option" where
  "shortest_path cls start end =
     (case G cls of
        None \<Rightarrow> Inl NotBuilt
      | Some g \<Rightarrow>
          (case nx_shortest_path g start end of
             Inr path \<Rightarrow> Inr (Some path)
           | Inl e \<Rightarrow> if e = NetworkXNoPath then Inr None else Inl e))"

text \<open>Lines 393-404.\<close>

definition shortest_path_with_lines ::
    "graph_state \<Rightarrow> string \<Rightarrow> string \<Rightarrow> py_error + (string \<times> string list) list option" where
  "shortest_path_with_lines cls start end =
     (case shortest_path cls start end of
        Inl e \<Rightarrow> Inl e
      | Inr None \<Rightarrow> Inr None
      | Inr (Some path) \<Rightarrow>
          if path = [] then Inr None
          else
            (case G cls of
               None \<Rightarrow> Inl NotBuilt
             | Some g \<Rightarrow>
                 Inr (Some (map (\<lambda>i. (path ! i, graph_connecting_lines g (path ! i) (path ! (i + 1))))
                              [0 ..< length path - 1]
                            @ [(last path, [])]))))"

text \<open>\<open>sep.join(xs)\<close>.\<close>

fun join :: "string \<Rightarrow> string list \<Rightarrow> string" where
  "join sep [] = []"
| "join sep [x] = x"
| "join sep (x # y # ys) = x @ sep @ join sep (y # ys)"

text \<open>A name inside an f-string: \<open>None\<close> prints as the word None.\<close>

definition fmt :: "string option \<Rightarrow> string" where
  "fmt name = (case name of None \<Rightarrow> ''None'' | Some s \<Rightarrow> s)"

text \<open>Lines 426-446; the lines are joined with the line feed character.\<close>

definition get_directions :: "graph_state \<Rightarrow> string \<Rightarrow> string \<Rightarrow> py_error + string option" where
  "get_directions cls start end =
     (case shortest_path_with_lines cls start end of
        Inl e \<Rightarrow> Inl e
      | Inr None \<Rightarrow> Inr None
      | Inr (Some path_with_lines) \<Rightarrow>
          if path_with_lines = [] then Inr None
          else
            (case G cls of
               None \<Rightarrow> Inl NotBuilt
             | Some g \<Rightarrow>
                 let name = (\<lambda>c. fmt (map_option stop_name (map_of (nodes g) c)));
                     current_station = fst (path_with_lines ! 0);
                     first_line = ''Start at '' @ name current_station
                                  @ '' ('' @ current_station @ '')'';
                     hop = (\<lambda>i.
                       let lines = snd (path_with_lines ! i);
                           next_station = fst (path_with_lines ! (i + 1))
                       in if lines \<noteq> []
                          then ''Take the '' @ join '', '' lines @ '' trains to ''
                               @ name next_station @ '' ('' @ next_station @ '')''
                          else ''Transfer at '' @ name next_station
                               @ '' ('' @ next_station @ '')'')
                 in Inr (Some (join [CHR 0x0A]
                      (first_line # map hop [0 ..< length path_with_lines - 1])))))"

text \<open>Lines 466-470.\<close>

definition all_shortest_paths :: "graph_state \<Rightarrow> string \<Rightarrow> string \<Rightarrow> py_error + string list list" where
  "all_shortest_paths cls start end =
     (case G cls of
        None \<Rightarrow> Inl NotBuilt
      | Some g \<Rightarrow>
          (case nx_all_shortest_paths g start end of
             Inr paths \<Rightarrow> Inr paths
           | Inl e \<Rightarrow> if e = NetworkXNoPath then Inr [] else Inl e))"

text \<open>Lines 507-523: with fewer than two nodes the loop body, and its check, never runs.\<close>

record segment =
  from_station :: string
  from_name :: "string option"
  to_station :: string
  to_name :: "string option"
  seg_lines :: "string list"

definition get_directions_for_path :: "graph_state \<Rightarrow> string list \<Rightarrow> py_error + segment list" where
  "get_directions_for_path cls path =
     (if length path < 2 then Inr []
      else
        (case G cls of
           None \<Rightarrow> Inl NotBuilt
         | Some g \<Rightarrow>
             Inr (map (\<lambda>i.
                    \<lparr>from_station = path ! i,
                     from_name = map_option stop_name (map_of (nodes g) (path ! i)),
                     to_station = path ! (i + 1),
                     to_name = map_option stop_name (map_of (nodes g) (path ! (i + 1))),
                     seg_lines = graph_connecting_lines g (path ! i) (path ! (i + 1))\<rparr>)
                  [0 ..< length path - 1])))"

text \<open>Lines 549-550.\<close>

fun directions_for_paths :: "graph_state \<Rightarrow> string list list \<Rightarrow> py_error + segment list list" where
  "directions_for_paths cls [] = Inr []"
| "directions_for_paths cls (path # paths) =
     (case get_directions_for_path cls path of
        Inl e \<Rightarrow> Inl e
      | Inr segs \<Rightarrow>
          (case directions_for_paths cls paths of
             Inl e \<Rightarrow> Inl e
           | Inr rest \<Rightarrow> Inr (segs # rest)))"

definition get_all_directions :: "graph_state \<Rightarrow> string \<Rightarrow> string \<Rightarrow> py_error + segment list list" where
  "get_all_directions cls start end =
     (case all_shortest_paths cls start end of
        Inl e \<Rightarrow> Inl e
      | Inr paths \<Rightarrow> directions_for_paths cls paths)"


section \<open>mta_complex_graph.py: MTAComplexGraph\<close>

text \<open>Lines 147-151: a complex id is appended only if it is not in the list yet.\<close>

fun first_visits :: "ComplexesData \<Rightarrow> string list \<Rightarrow> string list \<Rightarrow> py_error + string list" where
  "first_visits cx [] complex_ids = Inr complex_ids"
| "first_visits cx (stop # rest) complex_ids =
     (case get_complex_id_by_gtfs_stop_id cx stop of
        Inl e \<Rightarrow> Inl e
      | Inr None \<Rightarrow> first_visits cx rest complex_ids
      | Inr (Some complex_id) \<Rightarrow>
          if complex_id \<noteq> [] \<and> complex_id \<notin> set complex_ids
          then first_visits cx rest (complex_ids @ [complex_id])
          else first_visits cx rest complex_ids)"

text \<open>Lines 134-153. The first statement is \<open>cls._assert_built()\<close>.\<close>

definition MTAComplexGraph_ordered_stops :: "graph_state \<Rightarrow> string \<Rightarrow> int \<Rightarrow> py_error + string list" where
  "MTAComplexGraph_ordered_stops cls route direction =
     (case G cls of
        None \<Rightarrow> Inl NotBuilt
      | Some g \<Rightarrow>
          (case trips cls of
             None \<Rightarrow> Inl AttributeError
           | Some ts \<Rightarrow>
               (case trips_of ts route direction of
                  [] \<Rightarrow> Inl IndexError
                | t # _ \<Rightarrow>
                    (case stop_times cls of
                       None \<Rightarrow> Inl AttributeError
                     | Some sts \<Rightarrow>
                         (case complexes cls of
                            None \<Rightarrow> if trip_stops sts (trip_id t) = [] then Inr []
                                    else Inl AttributeError
                          | Some cx \<Rightarrow> first_visits cx (trip_stops sts (trip_id t)) [])))))"

text \<open>Lines 91-100: an edge between every two consecutive positions.\<close>

fun add_consecutive_edges :: "string \<Rightarrow> string list \<Rightarrow> graph \<Rightarrow> graph" where
  "add_consecutive_edges route (u # v # rest) g =
     add_consecutive_edges route (v # rest) (add_line route u v g)"
| "add_consecutive_edges route [u] g = g"
| "add_consecutive_edges route [] g = g"

text \<open>
  Lines 70-77: what \<open>ordered_stops\<close> returns is passed through the resolver once more.
\<close>

definition MTAComplexGraph_complex_ids :: "graph_state \<Rightarrow> string \<Rightarrow> int \<Rightarrow> py_error + string list" where
  "MTAComplexGraph_complex_ids cls route direction =
     (case MTAComplexGraph_ordered_stops cls route direction of
        Inl e \<Rightarrow> Inl e
      | Inr stops_list \<Rightarrow>
          (case complexes cls of
             None \<Rightarrow> if stops_list = [] then Inr [] else Inl AttributeError
           | Some cx \<Rightarrow> resolve_stops cx stops_list []))"

text \<open>Lines 68-102.\<close>

definition MTAComplexGraph_process :: "graph_state \<Rightarrow> string \<Rightarrow> int \<Rightarrow> graph \<Rightarrow> graph" where
  "MTAComplexGraph_process cls route direction g =
     (case MTAComplexGraph_complex_ids cls route direction of
        Inl e \<Rightarrow> g
      | Inr complex_ids \<Rightarrow>
          (case complexes cls of
             None \<Rightarrow> g
           | Some cx \<Rightarrow> add_consecutive_edges route complex_ids (add_nodes cx complex_ids g)))"

text \<open>Lines 49-108. \<open>cls.G\<close> keeps its old value while the loops run.\<close>

definition MTAComplexGraph_build_graph :: "graph_state \<Rightarrow> sources \<Rightarrow> py_error + graph_state" where
  "MTAComplexGraph_build_graph cls src =
     (case ComplexesData_init (complexes_csv src) (stops_txt src) of
        Inl e \<Rightarrow> Inl e
      | Inr cx \<Rightarrow>
          let cls1 = cls\<lparr>complexes := Some cx, stops := Some (stops_txt src),
                        trips := Some (trips_txt src),
                        stop_times := Some (stop_times_txt src)\<rparr>;
              routes = unique (map route_id (trips_txt src));
              g = fold (\<lambda>route. fold (MTAComplexGraph_process cls1 route) [0, 1]) routes
                    (empty_graph False)
          in Inr (cls1\<lparr>G := Some (sort_lines g)\<rparr>))"

text \<open>Lines 166-169.\<close>

definition MTAComplexGraph_connecting_lines :: "graph_state \<Rightarrow> string \<Rightarrow> string \<Rightarrow> py_error + string list" where
  "MTAComplexGraph_connecting_lines cls complex_id_1 complex_id_2 =
     (case G cls of
        None \<Rightarrow> Inl NotBuilt
      | Some g \<Rightarrow> Inr (graph_connecting_lines g complex_id_1 complex_id_2))"

text \<open>Lines 195-199: \<open>cls.G[u][v]['lines']\<close> for every two consecutive nodes of the path.\<close>

fun segment_lines :: "graph \<Rightarrow> string list \<Rightarrow> py_error + string list list" where
  "segment_lines g (u # v # rest) =
     (case edge_lines g u v of
        None \<Rightarrow> Inl KeyError
      | Some lines \<Rightarrow>
          (case segment_lines g (v # rest) of
             Inl e \<Rightarrow> Inl e
           | Inr others \<Rightarrow> Inr (lines # others)))"
| "segment_lines g [u] = Inr []"
| "segment_lines g [] = Inr []"

text \<open>Lines 189-203.\<close>

definition MTAComplexGraph_shortest_path ::
    "graph_state \<Rightarrow> string \<Rightarrow> string \<Rightarrow> py_error + (string list \<times> string list list)" where
  "MTAComplexGraph_shortest_path cls complex_id_1 complex_id_2 =
     (case G cls of
        None \<Rightarrow> Inl NotBuilt
      | Some g \<Rightarrow>
          (case nx_shortest_path g complex_id_1 complex_id_2 of
             Inl e \<Rightarrow> if e = NetworkXNoPath then Inr ([], []) else Inl e
           | Inr path \<Rightarrow>
               (case segment_lines g path of
                  Inl e \<Rightarrow> Inl e
                | Inr lines \<Rightarrow> Inr (path, lines))))"


section \<open>Calls in succession\<close>

text \<open>The graph a build leaves in \<open>cls.G\<close>, and a second build after a first.\<close>

definition built_graph :: "py_error + graph_state \<Rightarrow> graph option" where
  "built_graph r = (case r of Inl e \<Rightarrow> None | Inr cls \<Rightarrow> G cls)"

definition and_then :: "py_error + graph_state \<Rightarrow> (graph_state \<Rightarrow> py_error + 'a) \<Rightarrow> py_error + 'a" where
  "and_then r f = (case r of Inl e \<Rightarrow> Inl e | Inr cls \<Rightarrow> f cls)"


section \<open>Notions of the specification, and example inputs\<close>

subsection \<open>Registries\<close>

text \<open>The keys that storing the member ids \<open>gs\<close> writes.\<close>

definition stored_keys :: "string list \<Rightarrow> string set" where
  "stored_keys gs = set gs \<union> butlast ` {g \<in> set gs. has_direction_suffix g}"

text \<open>
  "Only the northbound form of \<open>b\<close> is registered": \<open>b\<close> with N appended is a member id of
  some row, and no row has a member id that would write one of the keys \<open>b\<close>, \<open>b\<close>N or
  \<open>b\<close>S by another way.
\<close>

definition colliding_forms :: "string \<Rightarrow> string set" where
  "colliding_forms b = {b, b @ ''S'', b @ ''SN'', b @ ''SS'', b @ ''NN'', b @ ''NS''}"

definition only_northbound :: "registry_row list \<Rightarrow> string \<Rightarrow> bool" where
  "only_northbound rows b \<longleftrightarrow>
     b @ ''N'' \<in> registered rows \<and> registered rows \<inter> colliding_forms b = {}"

definition paired :: "string \<Rightarrow> (string \<rightharpoonup> string) \<Rightarrow> bool" where
  "paired b m \<longleftrightarrow> m b = m (b @ ''N'') \<and> m (b @ ''S'') = None"

text \<open>The registry of the single row (618, 1, "A34N").\<close>

definition reg_A34 :: ComplexesData where
  "reg_A34 = \<lparr>complex_id_by_gtfs = Map.empty(''A34N'' \<mapsto> ''618'', ''A34'' \<mapsto> ''618''),
      complex_info = Map.empty(''618'' \<mapsto> \<lparr>num_stations = 1, gtfs_stop_ids = [''A34N'']\<rparr>),
      stop_name_map = Map.empty\<rparr>"

text \<open>The registry of the single row (7, 1, "N"): the member id N also writes the empty key.\<close>

definition reg_N :: ComplexesData where
  "reg_N = \<lparr>complex_id_by_gtfs = Map.empty(''N'' \<mapsto> ''7'', [] \<mapsto> ''7''),
      complex_info = Map.empty(''7'' \<mapsto> \<lparr>num_stations = 1, gtfs_stop_ids = [''N'']\<rparr>),
      stop_name_map = Map.empty\<rparr>"

subsection \<open>Source tables\<close>

text \<open>
  Route N with one southbound trip over two stops, each its own complex; the complex ids
  are spelled like the stop ids. No column is all digits, so every id is read as a string.
\<close>

definition src_two_stops :: sources where
  "src_two_stops =
     \<lparr>complexes_csv = [(''R01'', 1, [''R01'']), (''R02'', 1, [''R02''])],
      stops_txt = [(''R01'', ''Astoria-Ditmars Blvd''), (''R02'', ''Astoria Blvd'')],
      trips_txt = [\<lparr>route_id = ''N'', direction_id = 1, trip_id = ''t1''\<rparr>],
      stop_times_txt = [\<lparr>st_trip_id = ''t1'', stop_id = ''R01'', stop_sequence = 1\<rparr>,
                        \<lparr>st_trip_id = ''t1'', stop_id = ''R02'', stop_sequence = 2\<rparr>]\<rparr>"

text \<open>Route L with one trip over two consecutive stops of the same complex.\<close>

definition src_one_complex :: sources where
  "src_one_complex =
     \<lparr>complexes_csv = [(''1'', 2, [''X'', ''Y''])],
      stops_txt = [(''X'', ''Upper Level''), (''Y'', ''Lower Level'')],
      trips_txt = [\<lparr>route_id = ''L'', direction_id = 0, trip_id = ''t1''\<rparr>],
      stop_times_txt = [\<lparr>st_trip_id = ''t1'', stop_id = ''X'', stop_sequence = 1\<rparr>,
                        \<lparr>st_trip_id = ''t1'', stop_id = ''Y'', stop_sequence = 2\<rparr>]\<rparr>"

text \<open>Route L with one trip over two stops of two complexes.\<close>

definition src_two_complexes :: sources where
  "src_two_complexes =
     \<lparr>complexes_csv = [(''1'', 1, [''X'']), (''2'', 1, [''Y''])],
      stops_txt = [(''X'', ''First St''), (''Y'', ''Second St'')],
      trips_txt = [\<lparr>route_id = ''L'', direction_id = 0, trip_id = ''t1''\<rparr>],
      stop_times_txt = [\<lparr>st_trip_id = ''t1'', stop_id = ''X'', stop_sequence = 1\<rparr>,
                        \<lparr>st_trip_id = ''t1'', stop_id = ''Y'', stop_sequence = 2\<rparr>]\<rparr>"

subsection \<open>The sequence of a route as the specification words it\<close>

text \<open>A raw stop resolves when the resolver returns a non-empty complex id for it.\<close>

definition resolved :: "ComplexesData \<Rightarrow> string \<Rightarrow> string option" where
  "resolved cx stop =
     (case get_complex_id_by_gtfs_stop_id cx stop of
        Inl e \<Rightarrow> None
      | Inr None \<Rightarrow> None
      | Inr (Some c) \<Rightarrow> if c \<noteq> [] then Some c else None)"

text \<open>The raw stops mapped to complex ids, the unresolved ones dropped.\<close>

definition kept_sequence :: "ComplexesData \<Rightarrow> string list \<Rightarrow> string list" where
  "kept_sequence cx raw = List.map_filter (resolved cx) raw"

text \<open>Every run of consecutive repeats collapsed to one occurrence.\<close>

fun collapse_repeats :: "'a list \<Rightarrow> 'a list" where
  "collapse_repeats (x # y # rest) =
     (if x = y then collapse_repeats (y # rest) else x # collapse_repeats (y # rest))"
| "collapse_repeats [x] = [x]"
| "collapse_repeats [] = []"

text \<open>
  The deduplicated sequence of the first trip of (route, direction), as section 4.3,
  step 1 of the specification describes it; empty when there is no trip.
\<close>

definition spec_route_sequence :: "sources \<Rightarrow> string \<Rightarrow> int \<Rightarrow> string list" where
  "spec_route_sequence src route direction =
     (case ComplexesData_init (complexes_csv src) (stops_txt src) of
        Inl e \<Rightarrow> []
      | Inr cx \<Rightarrow>
          (case trips_of (trips_txt src) route direction of
             [] \<Rightarrow> []
           | t # _ \<Rightarrow>
               collapse_repeats
                 (kept_sequence cx (trip_stops (stop_times_txt src) (trip_id t)))))"

text \<open>\<open>a\<close> stands at a position strictly before a position of \<open>b\<close>.\<close>

fun before :: "'a \<Rightarrow> 'a \<Rightarrow> 'a list \<Rightarrow> bool" where
  "before a b [] = False"
| "before a b (u # later) = ((a = u \<and> b \<in> set later) \<or> before a b later)"

subsection \<open>Paths and directions\<close>

text \<open>One hop: \<open>v\<close> is a neighbour of \<open>u\<close>. Two nodes are joined when hops lead from one to the other.\<close>

definition edge_rel :: "graph \<Rightarrow> (string \<times> string) set" where
  "edge_rel g = {(u, v). v \<in> set (adj g u)}"

fun is_path :: "graph \<Rightarrow> string list \<Rightarrow> bool" where
  "is_path g (u # v # rest) = (v \<in> set (adj g u) \<and> is_path g (v # rest))"
| "is_path g [u] = True"
| "is_path g [] = False"







text \<open>
  Two routes that share no stop; the complex ids are spelled like the stop ids, and no
  column is all digits.
\<close>

definition src_two_routes :: sources where
  "src_two_routes =
     \<lparr>complexes_csv = [(''R01'', 1, [''R01'']), (''R02'', 1, [''R02'']),
                       (''G05'', 1, [''G05'']), (''G06'', 1, [''G06''])],
      stops_txt = [(''R01'', ''Astoria-Ditmars Blvd''), (''R02'', ''Astoria Blvd''),
                   (''G05'', ''Jamaica Center''), (''G06'', ''Sutphin Blvd'')],
      trips_txt = [\<lparr>route_id = ''N'', direction_id = 1, trip_id = ''t1''\<rparr>,
                   \<lparr>route_id = ''E'', direction_id = 1, trip_id = ''t2''\<rparr>],
      stop_times_txt = [\<lparr>st_trip_id = ''t1'', stop_id = ''R01'', stop_sequence = 1\<rparr>,
                        \<lparr>st_trip_id = ''t1'', stop_id = ''R02'', stop_sequence = 2\<rparr>,
                        \<lparr>st_trip_id = ''t2'', stop_id = ''G05'', stop_sequence = 1\<rparr>,
                        \<lparr>st_trip_id = ''t2'', stop_id = ''G06'', stop_sequence = 2\<rparr>]\<rparr>"

text \<open>The snapshots of the two builders for \<open>src_two_routes\<close>.\<close>

definition graph_two_routes :: "bool \<Rightarrow> graph" where
  "graph_two_routes d =
     \<lparr>directed = d,
      nodes = [(''R01'', \<lparr>stop_name = ''Astoria-Ditmars Blvd'', gtfs_ids = Some [''R01'']\<rparr>),
               (''R02'', \<lparr>stop_name = ''Astoria Blvd'', gtfs_ids = Some [''R02'']\<rparr>),
               (''G05'', \<lparr>stop_name = ''Jamaica Center'', gtfs_ids = Some [''G05'']\<rparr>),
               (''G06'', \<lparr>stop_name = ''Sutphin Blvd'', gtfs_ids = Some [''G06'']\<rparr>)],
      edges = [((''R01'', ''R02''), [''N'']), ((''G05'', ''G06''), [''E''])]\<rparr>"

subsection \<open>Invariants of the search\<close>

text \<open>What every path of a frontier satisfies: it is a path from the source, newest node first.\<close>

definition from_source :: "graph \<Rightarrow> string \<Rightarrow> string list \<Rightarrow> bool" where
  "from_source g s q \<longleftrightarrow> q \<noteq> [] \<and> last q = s \<and> is_path g (rev q)"



subsection \<open>Line sets of a directed build\<close>

text \<open>The set of lines stored under an edge key; empty when there is no such edge.\<close>

definition lines_of :: "graph \<Rightarrow> string \<times> string \<Rightarrow> string set" where
  "lines_of g k = (case map_of (edges g) k of None \<Rightarrow> {} | Some lines \<Rightarrow> set lines)"

text \<open>No stored edge has an empty list of lines.\<close>

definition lines_nonempty :: "graph \<Rightarrow> bool" where
  "lines_nonempty g \<longleftrightarrow> (\<forall>e \<in> set (edges g). snd e \<noteq> [])"

text \<open>
  The sequence of (route, direction) was computed without raising, and \<open>a\<close> stands in it
  strictly before \<open>b\<close>.
\<close>

definition traverses :: "graph_state \<Rightarrow> string \<Rightarrow> int \<Rightarrow> string \<Rightarrow> string \<Rightarrow> bool" where
  "traverses cls route direction a b =
     (case SubwayGraph_complex_ids cls route direction of
        Inl e \<Rightarrow> False
      | Inr ids \<Rightarrow> before a b ids)"

text \<open>
  The registry of \<open>src_one_complex\<close>, and the class state while its tables are loaded.
\<close>

definition reg_XY :: ComplexesData where
  "reg_XY = \<lparr>complex_id_by_gtfs = Map.empty(''X'' \<mapsto> ''1'', ''Y'' \<mapsto> ''1''),
      complex_info = Map.empty(''1'' \<mapsto> \<lparr>num_stations = 2, gtfs_stop_ids = [''X'', ''Y'']\<rparr>),
      stop_name_map = Map.empty(''X'' \<mapsto> ''Upper Level'', ''Y'' \<mapsto> ''Lower Level'')\<rparr>"

definition cls_XY :: graph_state where
  "cls_XY = \<lparr>G = Some (empty_graph False), stops = Some (stops_txt src_one_complex),
      trips = Some (trips_txt src_one_complex),
      stop_times = Some (stop_times_txt src_one_complex),
      complexes = Some reg_XY\<rparr>"


section \<open>The resolver\<close>

lemma store_gtfs_lookup:
  "store_gtfs c gs m = Inr m' \<Longrightarrow> m' k = (if k \<in> stored_keys gs then Some c else m k)"
proof (induction gs arbitrary: m)
  case Nil
  then show ?case by (simp add: stored_keys_def)
next
  case (Cons g gs)
  show ?case
  proof (cases "has_direction_suffix g")
    case True
    with Cons.prems have "store_gtfs c gs (m(g \<mapsto> c, butlast g \<mapsto> c)) = Inr m'"
      by (simp split: if_splits)
    from Cons.IH [OF this] True show ?thesis
      by (auto simp: stored_keys_def)
  next
    case False
    with Cons.prems have "store_gtfs c gs (m(g \<mapsto> c)) = Inr m'"
      by (simp split: if_splits)
    from Cons.IH [OF this] False show ?thesis
      by (auto simp: stored_keys_def)
  qed
qed

lemma store_gtfs_nonempty: "store_gtfs c gs m = Inr m' \<Longrightarrow> [] \<notin> set gs"
  by (induction gs arbitrary: m) (auto split: if_splits)

lemma stored_keys_iff:
  assumes "[] \<notin> set gs"
  shows "k \<in> stored_keys gs \<longleftrightarrow> k \<in> set gs \<or> k @ ''N'' \<in> set gs \<or> k @ ''S'' \<in> set gs"
proof
  assume "k \<in> stored_keys gs"
  then consider "k \<in> set gs" | g where "g \<in> set gs" "has_direction_suffix g" "k = butlast g"
    by (auto simp: stored_keys_def)
  then show "k \<in> set gs \<or> k @ ''N'' \<in> set gs \<or> k @ ''S'' \<in> set gs"
  proof cases
    case 1
    then show ?thesis by simp
  next
    case 2
    with assms have "g \<noteq> []" by auto
    then have "g = k @ [last g]" using 2(3) by simp
    with 2 show ?thesis by (auto simp: has_direction_suffix_def)
  qed
next
  assume "k \<in> set gs \<or> k @ ''N'' \<in> set gs \<or> k @ ''S'' \<in> set gs"
  then consider "k \<in> set gs" | "k @ ''N'' \<in> set gs" | "k @ ''S'' \<in> set gs" by blast
  then show "k \<in> stored_keys gs"
  proof cases
    case 1
    then show ?thesis by (simp add: stored_keys_def)
  next
    case 2
    then have "butlast (k @ ''N'') \<in> butlast ` {g \<in> set gs. has_direction_suffix g}"
      by (intro imageI) (simp add: has_direction_suffix_def)
    then show ?thesis by (simp add: stored_keys_def)
  next
    case 3
    then have "butlast (k @ ''S'') \<in> butlast ` {g \<in> set gs. has_direction_suffix g}"
      by (intro imageI) (simp add: has_direction_suffix_def)
    then show ?thesis by (simp add: stored_keys_def)
  qed
qed

lemma store_gtfs_paired:
  assumes st: "store_gtfs c gs m = Inr m'"
    and dis: "set gs \<inter> colliding_forms b = {}"
    and inv: "paired b m"
  shows "paired b m' \<and> (b @ ''N'' \<in> set gs \<longrightarrow> m' (b @ ''N'') = Some c)
         \<and> (m (b @ ''N'') \<noteq> None \<longrightarrow> m' (b @ ''N'') \<noteq> None)"
proof -
  have ne: "[] \<notin> set gs" using st by (rule store_gtfs_nonempty)
  have look: "\<And>k. m' k = (if k \<in> stored_keys gs then Some c else m k)"
    using st by (rule store_gtfs_lookup)
  have kb: "b \<in> stored_keys gs \<longleftrightarrow> b @ ''N'' \<in> set gs"
    using dis by (auto simp: stored_keys_iff [OF ne] colliding_forms_def)
  have kn: "b @ ''N'' \<in> stored_keys gs \<longleftrightarrow> b @ ''N'' \<in> set gs"
    using dis by (auto simp: stored_keys_iff [OF ne] colliding_forms_def)
  have ks: "b @ ''S'' \<notin> stored_keys gs"
    using dis by (auto simp: stored_keys_iff [OF ne] colliding_forms_def)
  show ?thesis using inv by (simp add: paired_def look kb kn ks)
qed

lemma load_rows_paired:
  assumes "load_rows rows self = Inr cx"
    and "registered rows \<inter> colliding_forms b = {}"
    and "paired b (complex_id_by_gtfs self)"
  shows "paired b (complex_id_by_gtfs cx)
         \<and> (b @ ''N'' \<in> registered rows \<or> complex_id_by_gtfs self (b @ ''N'') \<noteq> None
              \<longrightarrow> complex_id_by_gtfs cx (b @ ''N'') \<noteq> None)"
  using assms
proof (induction rows arbitrary: self)
  case Nil
  then show ?case by (simp add: registered_def)
next
  case (Cons row rows)
  obtain c n gs where row: "row = (c, n, gs)" by (cases row) auto
  from Cons.prems(1) row obtain m where
    st: "store_gtfs c gs (complex_id_by_gtfs self) = Inr m" and
    rest: "load_rows rows (self\<lparr>complex_info := (complex_info self)
                      (c \<mapsto> \<lparr>num_stations = n, gtfs_stop_ids = gs\<rparr>),
                  complex_id_by_gtfs := m\<rparr>) = Inr cx"
    by (auto split: sum.splits)
  have d1: "set gs \<inter> colliding_forms b = {}" and d2: "registered rows \<inter> colliding_forms b = {}"
    using Cons.prems(2) row by (auto simp: registered_def)
  note s = store_gtfs_paired [OF st d1 Cons.prems(3)]
  have "paired b (complex_id_by_gtfs cx)
         \<and> (b @ ''N'' \<in> registered rows \<or> m (b @ ''N'') \<noteq> None
              \<longrightarrow> complex_id_by_gtfs cx (b @ ''N'') \<noteq> None)"
    using Cons.IH [OF rest d2] s by simp
  moreover have "b @ ''N'' \<in> registered (row # rows)
                 \<longleftrightarrow> b @ ''N'' \<in> set gs \<or> b @ ''N'' \<in> registered rows"
    using row by (auto simp: registered_def)
  ultimately show ?case using s by auto
qed

lemma init_A34: "ComplexesData_init [(''618'', 1, [''A34N''])] [] = Inr reg_A34"
  by (simp add: ComplexesData_init_def reg_A34_def dict_of_def has_direction_suffix_def)

lemma only_A34: "only_northbound [(''618'', 1, [''A34N''])] ''A34''"
  by (simp add: only_northbound_def registered_def colliding_forms_def)

text \<open>
  C5. The resolver returns the exact match when the registry has one; failing that, for
  an id that ends in N or S it looks up the id without its last character, and for a
  non-empty id with no such suffix it looks up the id with N appended. Consequently,
  when a registry is loaded in which only the northbound form of a base id \<open>b\<close> (such as
  A34) is registered, resolving \<open>b\<close>, \<open>b\<close>N and \<open>b\<close>S returns the same complex id.
\<close>

theorem resolve_suffix_normalization:
  "(truthy (complex_id_by_gtfs cx s) \<longrightarrow>
      get_complex_id_by_gtfs_stop_id cx s = Inr (complex_id_by_gtfs cx s))
   \<and> (\<not> truthy (complex_id_by_gtfs cx s) \<and> s \<noteq> [] \<and> has_direction_suffix s \<longrightarrow>
      get_complex_id_by_gtfs_stop_id cx s = Inr (complex_id_by_gtfs cx (butlast s)))
   \<and> (\<not> truthy (complex_id_by_gtfs cx s) \<and> s \<noteq> [] \<and> \<not> has_direction_suffix s \<longrightarrow>
      get_complex_id_by_gtfs_stop_id cx s = Inr (complex_id_by_gtfs cx (s @ ''N'')))
   \<and> (ComplexesData_init rows stops_rows = Inr reg \<and> only_northbound rows b
        \<and> b \<noteq> [] \<and> \<not> has_direction_suffix b \<longrightarrow>
      (\<exists>c. get_complex_id_by_gtfs_stop_id reg b = Inr (Some c)
         \<and> get_complex_id_by_gtfs_stop_id reg (b @ ''N'') = Inr (Some c)
         \<and> get_complex_id_by_gtfs_stop_id reg (b @ ''S'') = Inr (Some c)))"
proof -
  have same: "ComplexesData_init rows stops_rows = Inr reg \<and> only_northbound rows b
        \<and> b \<noteq> [] \<and> \<not> has_direction_suffix b \<longrightarrow>
      (\<exists>c. get_complex_id_by_gtfs_stop_id reg b = Inr (Some c)
         \<and> get_complex_id_by_gtfs_stop_id reg (b @ ''N'') = Inr (Some c)
         \<and> get_complex_id_by_gtfs_stop_id reg (b @ ''S'') = Inr (Some c))"
  proof (intro impI, elim conjE)
    assume init: "ComplexesData_init rows stops_rows = Inr reg"
      and only: "only_northbound rows b" and bne: "b \<noteq> []"
      and nosuf: "\<not> has_direction_suffix b"
    let ?m = "complex_id_by_gtfs reg"
    have "paired b ?m \<and> ?m (b @ ''N'') \<noteq> None"
      using load_rows_paired [OF init [unfolded ComplexesData_init_def], of b] only
      by (simp add: only_northbound_def paired_def)
    then obtain c where c: "?m (b @ ''N'') = Some c" "?m b = Some c" "?m (b @ ''S'') = None"
      by (auto simp: paired_def)
    have "get_complex_id_by_gtfs_stop_id reg b = Inr (Some c)"
      using c bne nosuf by (simp add: get_complex_id_by_gtfs_stop_id_def truthy_def)
    moreover have "get_complex_id_by_gtfs_stop_id reg (b @ ''N'') = Inr (Some c)"
      using c by (simp add: get_complex_id_by_gtfs_stop_id_def truthy_def has_direction_suffix_def)
    moreover have "get_complex_id_by_gtfs_stop_id reg (b @ ''S'') = Inr (Some c)"
      using c by (simp add: get_complex_id_by_gtfs_stop_id_def truthy_def has_direction_suffix_def)
    ultimately show "\<exists>c. get_complex_id_by_gtfs_stop_id reg b = Inr (Some c)
         \<and> get_complex_id_by_gtfs_stop_id reg (b @ ''N'') = Inr (Some c)
         \<and> get_complex_id_by_gtfs_stop_id reg (b @ ''S'') = Inr (Some c)" by blast
  qed
  have exact: "truthy (complex_id_by_gtfs cx s) \<longrightarrow>
      get_complex_id_by_gtfs_stop_id cx s = Inr (complex_id_by_gtfs cx s)"
    by (simp add: get_complex_id_by_gtfs_stop_id_def)
  have strip: "\<not> truthy (complex_id_by_gtfs cx s) \<and> s \<noteq> [] \<and> has_direction_suffix s \<longrightarrow>
      get_complex_id_by_gtfs_stop_id cx s = Inr (complex_id_by_gtfs cx (butlast s))"
    by (simp add: get_complex_id_by_gtfs_stop_id_def)
  have north: "\<not> truthy (complex_id_by_gtfs cx s) \<and> s \<noteq> [] \<and> \<not> has_direction_suffix s \<longrightarrow>
      get_complex_id_by_gtfs_stop_id cx s = Inr (complex_id_by_gtfs cx (s @ ''N''))"
    by (simp add: get_complex_id_by_gtfs_stop_id_def)
  from exact strip north same show ?thesis by (intro conjI)
qed

theorem resolve_suffix_normalization_witness:
  "ComplexesData_init [(''618'', 1, [''A34N''])] [] = Inr reg_A34
   \<and> only_northbound [(''618'', 1, [''A34N''])] ''A34''
   \<and> get_complex_id_by_gtfs_stop_id reg_A34 ''A34'' = Inr (Some ''618'')
   \<and> get_complex_id_by_gtfs_stop_id reg_A34 ''A34N'' = Inr (Some ''618'')
   \<and> get_complex_id_by_gtfs_stop_id reg_A34 ''A34S'' = Inr (Some ''618'')
   \<and> \<not> truthy (complex_id_by_gtfs reg_A34 ''A34S'')"
proof -
  have suf: "\<not> has_direction_suffix ''A34''" "has_direction_suffix ''A34S''"
    by (simp_all add: has_direction_suffix_def)
  have nt: "\<not> truthy (complex_id_by_gtfs reg_A34 ''A34S'')"
    by (simp add: truthy_def reg_A34_def)
  note inst = resolve_suffix_normalization
    [of reg_A34 "''A34S''" "[(''618'', 1, [''A34N''])]" "[]" reg_A34 "''A34''"]
  from inst nt suf have s: "get_complex_id_by_gtfs_stop_id reg_A34 ''A34S''
      = Inr (complex_id_by_gtfs reg_A34 (butlast ''A34S''))"
    by simp
  from inst init_A34 only_A34 suf obtain c where
    c: "get_complex_id_by_gtfs_stop_id reg_A34 ''A34'' = Inr (Some c)"
       "get_complex_id_by_gtfs_stop_id reg_A34 (''A34'' @ ''N'') = Inr (Some c)"
       "get_complex_id_by_gtfs_stop_id reg_A34 (''A34'' @ ''S'') = Inr (Some c)"
    by auto
  from s c(3) have "c = ''618''" by (simp add: reg_A34_def)
  with c init_A34 only_A34 nt show ?thesis by simp
qed

text \<open>
  C10, as the code has it. On the empty string the resolver raises \<open>IndexError\<close> when the
  registry has no non-empty entry under the empty key, and returns that entry when it
  has one; on every non-empty string it returns (a complex id or \<open>None\<close>) and does not
  raise.
\<close>

theorem resolve_empty_string:
  "(\<not> truthy (complex_id_by_gtfs cx []) \<longrightarrow>
      get_complex_id_by_gtfs_stop_id cx [] = Inl IndexError)
   \<and> (truthy (complex_id_by_gtfs cx []) \<longrightarrow>
      get_complex_id_by_gtfs_stop_id cx [] = Inr (complex_id_by_gtfs cx []))
   \<and> (s \<noteq> [] \<longrightarrow> (\<exists>r. get_complex_id_by_gtfs_stop_id cx s = Inr r))"
  by (simp add: get_complex_id_by_gtfs_stop_id_def Let_def)

theorem resolve_empty_string_witness:
  "\<not> truthy (complex_id_by_gtfs reg_A34 [])
   \<and> get_complex_id_by_gtfs_stop_id reg_A34 [] = Inl IndexError
   \<and> truthy (complex_id_by_gtfs reg_N [])
   \<and> get_complex_id_by_gtfs_stop_id reg_N [] = Inr (Some ''7'')
   \<and> ''A34S'' \<noteq> []
   \<and> get_complex_id_by_gtfs_stop_id reg_A34 ''A34S'' = Inr (Some ''618'')"
proof -
  have a: "\<not> truthy (complex_id_by_gtfs reg_A34 [])"
    by (simp add: truthy_def reg_A34_def)
  have n: "truthy (complex_id_by_gtfs reg_N [])" "complex_id_by_gtfs reg_N [] = Some ''7''"
    by (simp_all add: truthy_def reg_N_def)
  from resolve_empty_string [of reg_A34 "''A34S''"] a
  have "get_complex_id_by_gtfs_stop_id reg_A34 [] = Inl IndexError"
    and "\<exists>r. get_complex_id_by_gtfs_stop_id reg_A34 ''A34S'' = Inr r"
    by simp_all
  moreover have "get_complex_id_by_gtfs_stop_id reg_A34 ''A34S'' = Inr (Some ''618'')"
    by (simp add: get_complex_id_by_gtfs_stop_id_def truthy_def reg_A34_def
        has_direction_suffix_def)
  moreover from resolve_empty_string [of reg_N "[]"] n
  have "get_complex_id_by_gtfs_stop_id reg_N [] = Inr (Some ''7'')"
    by simp
  ultimately show ?thesis using a n by simp
qed

text \<open>
  C10 as stated fails on the registry loaded from the row (7, 1, "N"): it resolves the
  empty string to complex 7, so the empty-string input does not raise there.
\<close>

theorem resolve_empty_string_counterexample:
  "ComplexesData_init [(''7'', 1, [''N''])] [] = Inr reg_N
   \<and> get_complex_id_by_gtfs_stop_id reg_N [] = Inr (Some ''7'')"
  by (simp add: ComplexesData_init_def reg_N_def dict_of_def has_direction_suffix_def
      get_complex_id_by_gtfs_stop_id_def truthy_def)


section \<open>Queries before a build, unknown identifiers, routes without a trip\<close>

text \<open>
  While \<open>G\<close> is \<open>None\<close>, every query that starts with \<open>_assert_built\<close>, or with a call
  that does, raises its \<open>RuntimeError\<close>: successors, connecting lines, lines at a stop
  or complex, shortest path (with and without lines), all shortest paths, directions,
  and the name and id lookups, for both classes.
\<close>

lemma queries_before_build:
  assumes "G cls = None"
  shows "stop_name_to_complex_id cls name = Inl NotBuilt
       \<and> complex_id_to_name cls c = Inl NotBuilt
       \<and> lines_at_gtfs_stop_id cls s = Inl NotBuilt
       \<and> lines_at_complex_id cls c = Inl NotBuilt
       \<and> successors cls c = Inl NotBuilt
       \<and> connecting_lines cls a b = Inl NotBuilt
       \<and> shortest_path cls a b = Inl NotBuilt
       \<and> shortest_path_with_lines cls a b = Inl NotBuilt
       \<and> get_directions cls a b = Inl NotBuilt
       \<and> all_shortest_paths cls a b = Inl NotBuilt
       \<and> get_all_directions cls a b = Inl NotBuilt
       \<and> MTAComplexGraph_connecting_lines cls a b = Inl NotBuilt
       \<and> MTAComplexGraph_shortest_path cls a b = Inl NotBuilt"
proof -
  have sp: "shortest_path cls a b = Inl NotBuilt"
    using assms by (simp add: shortest_path_def)
  have spl: "shortest_path_with_lines cls a b = Inl NotBuilt"
    using sp by (simp add: shortest_path_with_lines_def)
  have gd: "get_directions cls a b = Inl NotBuilt"
    using spl by (simp add: get_directions_def)
  have asp: "all_shortest_paths cls a b = Inl NotBuilt"
    using assms by (simp add: all_shortest_paths_def)
  have gad: "get_all_directions cls a b = Inl NotBuilt"
    using asp by (simp add: get_all_directions_def)
  have rest: "stop_name_to_complex_id cls name = Inl NotBuilt"
    "complex_id_to_name cls c = Inl NotBuilt"
    "lines_at_gtfs_stop_id cls s = Inl NotBuilt"
    "lines_at_complex_id cls c = Inl NotBuilt"
    "successors cls c = Inl NotBuilt"
    "connecting_lines cls a b = Inl NotBuilt"
    "MTAComplexGraph_connecting_lines cls a b = Inl NotBuilt"
    "MTAComplexGraph_shortest_path cls a b = Inl NotBuilt"
    using assms
    by (simp_all add: stop_name_to_complex_id_def complex_id_to_name_def
        lines_at_gtfs_stop_id_def lines_at_complex_id_def successors_def
        connecting_lines_def MTAComplexGraph_connecting_lines_def
        MTAComplexGraph_shortest_path_def)
  from sp spl gd asp gad rest show ?thesis by simp
qed

lemma queries_before_build_example:
  "G not_built = None
   \<and> successors not_built ''618'' = Inl NotBuilt
   \<and> connecting_lines not_built ''618'' ''327'' = Inl NotBuilt
   \<and> lines_at_complex_id not_built ''618'' = Inl NotBuilt
   \<and> shortest_path not_built ''618'' ''164'' = Inl NotBuilt
   \<and> all_shortest_paths not_built ''618'' ''164'' = Inl NotBuilt
   \<and> get_directions not_built ''618'' ''164'' = Inl NotBuilt
   \<and> stop_name_to_complex_id not_built ''14 St-Union Sq'' = Inl NotBuilt
   \<and> complex_id_to_name not_built ''618'' = Inl NotBuilt"
proof -
  have n: "G not_built = None" by (simp add: not_built_def)
  from queries_before_build [OF n, of "''14 St-Union Sq''" "''618''" "''A34''" "''618''" "''164''"]
    queries_before_build [OF n, of "''14 St-Union Sq''" "''618''" "''A34''" "''618''" "''327''"]
    n
  show ?thesis by simp
qed

lemma directions_for_path_before_build:
  "G cls = None \<Longrightarrow> 2 \<le> length path \<Longrightarrow> get_directions_for_path cls path = Inl NotBuilt"
  by (simp add: get_directions_for_path_def)

text \<open>
  C8, at \<open>get_directions_for_path\<close>. The method has no \<open>_assert_built\<close> of its own and
  reaches the check only inside its loop. Before any build it therefore returns the
  empty list for the empty path and for a path of one node, where the claim has it
  raise; for a path of two nodes it raises the \<open>RuntimeError\<close>, as \<open>get_directions\<close> does.
\<close>

theorem directions_for_path_unchecked_before_build:
  "get_directions_for_path not_built [] = Inr []
   \<and> get_directions_for_path not_built [''618''] = Inr []
   \<and> get_directions_for_path not_built [''618'', ''164''] = Inl NotBuilt
   \<and> get_directions not_built ''618'' ''164'' = Inl NotBuilt"
  by code_simp

text \<open>
  C2, at an identifier that is not a node. On the snapshot built from \<open>src_two_stops\<close>
  (nodes R01 and R02), \<open>successors\<close> of the unknown id 999 raises \<open>NetworkXError\<close>, the
  shortest-path queries with 999 as an end raise \<open>NodeNotFound\<close>, and the lines at the
  empty stop id raise \<open>IndexError\<close>.
\<close>

theorem unknown_identifier_raises:
  "and_then (SubwayGraph_build_graph not_built src_two_stops)
      (\<lambda>cls. successors cls ''999'') = Inl NetworkXError
   \<and> and_then (SubwayGraph_build_graph not_built src_two_stops)
      (\<lambda>cls. shortest_path cls ''999'' ''R01'') = Inl NodeNotFound
   \<and> and_then (SubwayGraph_build_graph not_built src_two_stops)
      (\<lambda>cls. shortest_path cls ''R01'' ''999'') = Inl NodeNotFound
   \<and> and_then (SubwayGraph_build_graph not_built src_two_stops)
      (\<lambda>cls. all_shortest_paths cls ''999'' ''R01'') = Inl NodeNotFound
   \<and> and_then (SubwayGraph_build_graph not_built src_two_stops)
      (\<lambda>cls. get_directions cls ''R01'' ''999'') = Inl NodeNotFound
   \<and> and_then (SubwayGraph_build_graph not_built src_two_stops)
      (\<lambda>cls. lines_at_gtfs_stop_id cls []) = Inl IndexError"
  by code_simp

text \<open>The queries that do return a not-found value on the same snapshot.\<close>

lemma unknown_identifier_not_found:
  "and_then (SubwayGraph_build_graph not_built src_two_stops)
      (\<lambda>cls. connecting_lines cls ''999'' ''R01'') = Inr []
   \<and> and_then (SubwayGraph_build_graph not_built src_two_stops)
      (\<lambda>cls. lines_at_complex_id cls ''999'') = Inr []
   \<and> and_then (SubwayGraph_build_graph not_built src_two_stops)
      (\<lambda>cls. lines_at_gtfs_stop_id cls ''999'') = Inr []
   \<and> and_then (SubwayGraph_build_graph not_built src_two_stops)
      (\<lambda>cls. complex_id_to_name cls ''999'') = Inr None
   \<and> and_then (SubwayGraph_build_graph not_built src_two_stops)
      (\<lambda>cls. stop_name_to_complex_id cls ''Nowhere'') = Inr None
   \<and> and_then (SubwayGraph_build_graph not_built src_two_stops)
      (\<lambda>cls. all_shortest_paths cls ''R01'' ''999'') = Inr []"
  by code_simp

text \<open>
  C4, at a (route, direction) without a trip. With the tables of \<open>src_two_stops\<close> (one
  trip, of route N in direction 1), \<open>SubwayGraph.ordered_stops\<close> raises \<open>IndexError\<close> for
  route L and for route N in direction 0, while for the override route A it returns the
  empty list; \<open>MTAComplexGraph.ordered_stops\<close> raises \<open>IndexError\<close> as well.
\<close>

theorem ordered_stops_without_trip:
  "and_then (SubwayGraph_build_graph not_built src_two_stops)
      (\<lambda>cls. SubwayGraph_ordered_stops cls ''L'' 0) = Inl IndexError
   \<and> and_then (SubwayGraph_build_graph not_built src_two_stops)
      (\<lambda>cls. SubwayGraph_ordered_stops cls ''N'' 0) = Inl IndexError
   \<and> and_then (SubwayGraph_build_graph not_built src_two_stops)
      (\<lambda>cls. SubwayGraph_ordered_stops cls ''A'' 0) = Inr []
   \<and> and_then (MTAComplexGraph_build_graph not_built src_two_stops)
      (\<lambda>cls. MTAComplexGraph_ordered_stops cls ''L'' 0) = Inl IndexError"
  by code_simp


section \<open>Building twice\<close>

lemma SubwayGraph_ordered_stops_cong:
  assumes "trips cls = trips cls'" "stop_times cls = stop_times cls'"
  shows "SubwayGraph_ordered_stops cls = SubwayGraph_ordered_stops cls'"
  unfolding SubwayGraph_ordered_stops_def assms by (rule refl)

lemma SubwayGraph_process_cong:
  assumes "trips cls = trips cls'" "stop_times cls = stop_times cls'"
    "complexes cls = complexes cls'"
  shows "SubwayGraph_process cls = SubwayGraph_process cls'"
  unfolding SubwayGraph_process_def SubwayGraph_complex_ids_def
    SubwayGraph_ordered_stops_cong [OF assms(1,2)] assms(3)
  by (rule refl)

text \<open>
  The SubwayGraph build reads nothing of the earlier state: from the same sources it
  yields the same state, whatever state it starts from.
\<close>

lemma SubwayGraph_build_graph_idempotent:
  assumes "SubwayGraph_build_graph cls src = Inr cls1"
  shows "SubwayGraph_build_graph cls1 src = Inr cls1"
proof (cases "ComplexesData_init (complexes_csv src) (stops_txt src)")
  case (Inl e)
  with assms show ?thesis by (simp add: SubwayGraph_build_graph_def)
next
  case (Inr cx)
  let ?upd = "\<lambda>c::graph_state. c\<lparr>complexes := Some cx, stops := Some (stops_txt src),
                  trips := Some (trips_txt src), stop_times := Some (stop_times_txt src)\<rparr>"
  have p: "SubwayGraph_process (?upd cls1) = SubwayGraph_process (?upd cls)"
    by (rule SubwayGraph_process_cong) simp_all
  define X where "X = sort_lines
        (fold (\<lambda>route. fold (SubwayGraph_process (?upd cls) route) [0, 1])
           (unique (map route_id (trips_txt src))) (empty_graph True))"
  from assms Inr have c1: "cls1 = (?upd cls)\<lparr>G := Some X\<rparr>"
    by (simp add: SubwayGraph_build_graph_def Let_def X_def)
  have "SubwayGraph_build_graph cls1 src = Inr ((?upd cls1)\<lparr>G := Some X\<rparr>)"
    using Inr by (simp add: SubwayGraph_build_graph_def Let_def p X_def)
  also have "(?upd cls1)\<lparr>G := Some X\<rparr> = (?upd cls)\<lparr>G := Some X\<rparr>"
    by (simp add: c1)
  also have "\<dots> = cls1"
    by (simp add: c1)
  finally show ?thesis .
qed

text \<open>
  C1, for the MTAComplexGraph builder. \<open>ordered_stops\<close> asserts that the graph is built,
  so on the first build every (route, direction) raises and is skipped and the snapshot
  is empty; the second build, from the same sources, finds \<open>G\<close> set and yields two nodes
  and an edge.
\<close>

theorem MTAComplexGraph_second_build_differs:
  "built_graph (MTAComplexGraph_build_graph not_built src_two_stops)
     = Some \<lparr>directed = False, nodes = [], edges = []\<rparr>
   \<and> built_graph (and_then (MTAComplexGraph_build_graph not_built src_two_stops)
        (\<lambda>cls. MTAComplexGraph_build_graph cls src_two_stops))
     = Some \<lparr>directed = False,
             nodes = [(''R01'', \<lparr>stop_name = ''Astoria-Ditmars Blvd'',
                                 gtfs_ids = Some [''R01'']\<rparr>),
                      (''R02'', \<lparr>stop_name = ''Astoria Blvd'', gtfs_ids = Some [''R02'']\<rparr>)],
             edges = [((''R01'', ''R02''), [''N''])]\<rparr>"
  by code_simp


section \<open>Shortest paths\<close>

lemma is_path_snoc:
  "is_path g (p @ [u]) \<Longrightarrow> v \<in> set (adj g u) \<Longrightarrow> is_path g (p @ [u, v])"
  by (induction g p rule: is_path.induct) auto

lemma is_path_reachable:
  "is_path g p \<Longrightarrow> (hd p, last p) \<in> (edge_rel g)\<^sup>*"
proof (induction g p rule: is_path.induct)
  case (1 g u v rest)
  then have "(u, v) \<in> edge_rel g" and "(v, last (v # rest)) \<in> (edge_rel g)\<^sup>*"
    by (simp_all add: edge_rel_def)
  then show ?case by (simp add: converse_rtrancl_into_rtrancl)
qed simp_all

lemma grow_from_source:
  assumes "from_source g s p" "q \<in> set (grow g visited p)"
  shows "from_source g s q"
proof -
  from assms(1) obtain u rest where p: "p = u # rest"
    by (cases p) (auto simp: from_source_def)
  with assms(2) obtain v where v: "v \<in> set (adj g u)" and q: "q = v # u # rest"
    by (auto simp: grow_def)
  from assms(1) p have "is_path g (rev rest @ [u])" by (simp add: from_source_def)
  from is_path_snoc [OF this v] have "is_path g (rev q)" by (simp add: q)
  with assms(1) p q show ?thesis by (simp add: from_source_def)
qed

lemma expand_from_source:
  assumes "\<forall>p \<in> set frontier. from_source g s p" "q \<in> set (expand g visited frontier)"
  shows "from_source g s q"
  using assms by (auto simp: expand_def intro: grow_from_source)

lemma arrived_iff: "q \<in> set (arrived t frontier) \<longleftrightarrow> q \<in> set frontier \<and> q \<noteq> [] \<and> hd q = t"
  by (cases q) (auto simp: arrived_def)

lemma bfs_sound:
  assumes "\<forall>p \<in> set frontier. from_source g s p" "r \<in> set (bfs g t visited frontier)"
  shows "r \<noteq> [] \<and> hd r = s \<and> last r = t \<and> is_path g r"
  using assms
proof (induction g t visited frontier rule: bfs.induct)
  case (1 g t visited frontier)
  show ?case
  proof (cases "arrived t frontier = []")
    case False
    with "1.prems"(2) obtain q where q: "q \<in> set (arrived t frontier)" and r: "r = rev q"
      by (subst (asm) bfs.simps) auto
    from q have qf: "q \<in> set frontier" "q \<noteq> []" "hd q = t" by (simp_all add: arrived_iff)
    with "1.prems"(1) have "from_source g s q" by blast
    with qf r show ?thesis
      by (simp add: from_source_def hd_rev last_rev)
  next
    case True
    show ?thesis
    proof (cases "expand g visited frontier = []")
      case e: True
      with True "1.prems"(2) show ?thesis by (subst (asm) bfs.simps) simp
    next
      case e: False
      with True "1.prems"(2)
      have r: "r \<in> set (bfs g t (visited @ map hd (expand g visited frontier))
                          (expand g visited frontier))"
        by (subst (asm) bfs.simps) simp
      have "\<forall>p \<in> set (expand g visited frontier). from_source g s p"
        using "1.prems"(1) expand_from_source by blast
      moreover from True have "\<not> arrived t frontier \<noteq> []" by simp
      ultimately show ?thesis using "1.IH" e r by blast
    qed
  qed
qed

lemma closed_reach:
  assumes "(u, v) \<in> (edge_rel g)\<^sup>*" "u \<in> S" "\<forall>w \<in> S. set (adj g w) \<subseteq> S"
  shows "v \<in> S"
  using assms by (induction rule: rtrancl_induct) (auto simp: edge_rel_def)



lemma bfs_start_sound:
  "r \<in> set (bfs g t [s] [[s]]) \<Longrightarrow> r \<noteq> [] \<and> hd r = s \<and> last r = t \<and> is_path g r"
  by (rule bfs_sound [where frontier = "[[s]]" and visited = "[s]"])
     (simp_all add: from_source_def)


lemma bfs_start_none:
  "(s, t) \<notin> (edge_rel g)\<^sup>* \<Longrightarrow> bfs g t [s] [[s]] = []"
proof (rule ccontr)
  assume no: "(s, t) \<notin> (edge_rel g)\<^sup>*" and "bfs g t [s] [[s]] \<noteq> []"
  then obtain r where "r \<in> set (bfs g t [s] [[s]])"
    by (cases "bfs g t [s] [[s]]") auto
  from bfs_start_sound [OF this] is_path_reachable [of g r] no show False by auto
qed








lemma shortest_path_none:
  assumes "G cls = Some g" "has_node g a" "has_node g b" "(a, b) \<notin> (edge_rel g)\<^sup>*"
  shows "shortest_path cls a b = Inr None"
  using assms bfs_start_none [OF assms(4)]
  by (simp add: shortest_path_def nx_shortest_path_def)

text \<open>
  C7. When \<open>a\<close> and \<open>b\<close> are nodes of the graph and no sequence of hops leads from \<open>a\<close> to
  \<open>b\<close>, \<open>SubwayGraph.shortest_path\<close> returns \<open>None\<close>, \<open>all_shortest_paths\<close> returns
  the empty list, \<open>get_directions\<close> returns \<open>None\<close> and \<open>MTAComplexGraph.shortest_path\<close>
  returns the pair of empty lists; none of them raises.
\<close>

theorem disconnected_pair_not_found:
  assumes "G cls = Some g" "has_node g a" "has_node g b" "(a, b) \<notin> (edge_rel g)\<^sup>*"
  shows "shortest_path cls a b = Inr None
       \<and> all_shortest_paths cls a b = Inr []
       \<and> get_directions cls a b = Inr None
       \<and> MTAComplexGraph_shortest_path cls a b = Inr ([], [])"
proof -
  have sp: "shortest_path cls a b = Inr None" using assms by (rule shortest_path_none)
  have "all_shortest_paths cls a b = Inr []"
    using assms bfs_start_none [OF assms(4)]
    by (simp add: all_shortest_paths_def nx_all_shortest_paths_def)
  moreover have "get_directions cls a b = Inr None"
    using sp by (simp add: get_directions_def shortest_path_with_lines_def)
  moreover have "MTAComplexGraph_shortest_path cls a b = Inr ([], [])"
    using assms bfs_start_none [OF assms(4)]
    by (simp add: MTAComplexGraph_shortest_path_def nx_shortest_path_def)
  ultimately show ?thesis using sp by simp
qed

lemma unreachable_by_closed_set:
  "a \<in> S \<Longrightarrow> \<forall>w \<in> S. set (adj g w) \<subseteq> S \<Longrightarrow> b \<notin> S \<Longrightarrow> (a, b) \<notin> (edge_rel g)\<^sup>*"
  using closed_reach by blast

lemma built_graph_SomeD:
  "built_graph r = Some g \<Longrightarrow> \<exists>cls. r = Inr cls \<and> G cls = Some g"
  by (cases r) (simp_all add: built_graph_def)

lemma subway_two_routes:
  "built_graph (SubwayGraph_build_graph not_built src_two_routes) = Some (graph_two_routes True)"
  by code_simp

lemma mta_two_routes:
  "built_graph (and_then (MTAComplexGraph_build_graph not_built src_two_routes)
      (\<lambda>cls. MTAComplexGraph_build_graph cls src_two_routes)) = Some (graph_two_routes False)"
  by code_simp

theorem disconnected_pair_not_found_witness:
  "built_graph (SubwayGraph_build_graph not_built src_two_routes) = Some (graph_two_routes True)
   \<and> has_node (graph_two_routes True) ''R02'' \<and> has_node (graph_two_routes True) ''G05''
   \<and> (''R02'', ''G05'') \<notin> (edge_rel (graph_two_routes True))\<^sup>*
   \<and> and_then (SubwayGraph_build_graph not_built src_two_routes)
        (\<lambda>cls. shortest_path cls ''R02'' ''G05'') = Inr None
   \<and> and_then (SubwayGraph_build_graph not_built src_two_routes)
        (\<lambda>cls. all_shortest_paths cls ''R02'' ''G05'') = Inr []
   \<and> built_graph (and_then (MTAComplexGraph_build_graph not_built src_two_routes)
        (\<lambda>cls. MTAComplexGraph_build_graph cls src_two_routes)) = Some (graph_two_routes False)
   \<and> (''R02'', ''G05'') \<notin> (edge_rel (graph_two_routes False))\<^sup>*
   \<and> and_then (and_then (MTAComplexGraph_build_graph not_built src_two_routes)
        (\<lambda>cls. MTAComplexGraph_build_graph cls src_two_routes))
        (\<lambda>cls. MTAComplexGraph_shortest_path cls ''R02'' ''G05'') = Inr ([], [])"
proof -
  have n: "has_node (graph_two_routes d) ''R02''" "has_node (graph_two_routes d) ''G05''" for d
    by (simp_all add: has_node_def graph_two_routes_def)
  have u1: "(''R02'', ''G05'') \<notin> (edge_rel (graph_two_routes True))\<^sup>*"
    by (rule unreachable_by_closed_set [where S = "{''R02''}"])
       (simp_all add: adj_def graph_two_routes_def)
  have u2: "(''R02'', ''G05'') \<notin> (edge_rel (graph_two_routes False))\<^sup>*"
    by (rule unreachable_by_closed_set [where S = "{''R01'', ''R02''}"])
       (simp_all add: adj_def graph_two_routes_def)
  from built_graph_SomeD [OF subway_two_routes] obtain cls where
    cls: "SubwayGraph_build_graph not_built src_two_routes = Inr cls"
         "G cls = Some (graph_two_routes True)" by blast
  from built_graph_SomeD [OF mta_two_routes] obtain cls' where
    cls': "and_then (MTAComplexGraph_build_graph not_built src_two_routes)
             (\<lambda>cls. MTAComplexGraph_build_graph cls src_two_routes) = Inr cls'"
          "G cls' = Some (graph_two_routes False)" by blast
  from disconnected_pair_not_found [OF cls(2) n u1] cls(1)
  have s: "and_then (SubwayGraph_build_graph not_built src_two_routes)
        (\<lambda>cls. shortest_path cls ''R02'' ''G05'') = Inr None"
     "and_then (SubwayGraph_build_graph not_built src_two_routes)
        (\<lambda>cls. all_shortest_paths cls ''R02'' ''G05'') = Inr []"
    by (simp_all add: and_then_def)
  from disconnected_pair_not_found [OF cls'(2) n u2] cls'(1)
  have m: "and_then (and_then (MTAComplexGraph_build_graph not_built src_two_routes)
        (\<lambda>cls. MTAComplexGraph_build_graph cls src_two_routes))
        (\<lambda>cls. MTAComplexGraph_shortest_path cls ''R02'' ''G05'') = Inr ([], [])"
    by (simp add: and_then_def)
  from subway_two_routes mta_two_routes n u1 u2 s m show ?thesis by simp
qed





section \<open>What a build stores\<close>

lemma add_line_directed [simp]: "directed (add_line r u v g) = directed g"
  by (simp add: add_line_def split: option.splits)

lemma add_line_nodes [simp]: "nodes (add_line r u v g) = nodes g"
  by (simp add: add_line_def split: option.splits)

lemma add_line_map_of:
  assumes "directed g"
  shows "map_of (edges (add_line r u v g))
         = (map_of (edges g))((u, v) \<mapsto>
              (case map_of (edges g) (u, v) of
                 None \<Rightarrow> [r]
               | Some lines \<Rightarrow> if r \<in> set lines then lines else lines @ [r]))"
proof (cases "map_of (edges g) (u, v)")
  case None
  with assms have "edges (add_line r u v g) = edges g @ [((u, v), [r])]"
    by (simp add: add_line_def edge_lines_def edge_key_def)
  with None show ?thesis
    by (auto simp: map_add_def fun_eq_iff split: option.splits)
next
  case (Some lines)
  show ?thesis
  proof (cases "r \<in> set lines")
    case True
    with Some assms have "add_line r u v g = g"
      by (simp add: add_line_def edge_lines_def edge_key_def)
    with Some True show ?thesis by (simp add: map_upd_triv)
  next
    case False
    with Some assms have "edges (add_line r u v g)
        = AList.update (u, v) (lines @ [r]) (edges g)"
      by (simp add: add_line_def edge_lines_def edge_key_def)
    with Some False show ?thesis by (simp add: update_conv')
  qed
qed

lemma add_line_lines_of:
  assumes "directed g"
  shows "lines_of (add_line r u v g) k = lines_of g k \<union> (if k = (u, v) then {r} else {})"
  by (auto simp: lines_of_def add_line_map_of [OF assms] split: option.splits if_splits)

lemma add_line_dom:
  assumes "directed g"
  shows "dom (map_of (edges (add_line r u v g))) = insert (u, v) (dom (map_of (edges g)))"
  by (simp add: add_line_map_of [OF assms])

lemma set_update_subset:
  "set (AList.update k v al) \<subseteq> insert (k, v) (set al)"
  by (induction al) auto

lemma add_line_nonempty:
  assumes "lines_nonempty g"
  shows "lines_nonempty (add_line r u v g)"
proof (cases "edge_lines g u v")
  case None
  then have "edges (add_line r u v g) = edges g @ [((u, v), [r])]"
    by (simp add: add_line_def)
  with assms show ?thesis by (simp add: lines_nonempty_def)
next
  case (Some lines)
  show ?thesis
  proof (cases "r \<in> set lines")
    case True
    with Some have "add_line r u v g = g" by (simp add: add_line_def)
    with assms show ?thesis by simp
  next
    case False
    with Some have e: "edges (add_line r u v g)
        = AList.update (edge_key g u v) (lines @ [r]) (edges g)"
      by (simp add: add_line_def)
    have "set (AList.update (edge_key g u v) (lines @ [r]) (edges g))
          \<subseteq> insert (edge_key g u v, lines @ [r]) (set (edges g))"
      by (rule set_update_subset)
    with assms show ?thesis unfolding lines_nonempty_def e by auto
  qed
qed

lemma fold_add_line_directed [simp]: "directed (fold (add_line r u) vs g) = directed g"
  by (induction vs arbitrary: g) simp_all

lemma fold_add_line_nodes [simp]: "nodes (fold (add_line r u) vs g) = nodes g"
  by (induction vs arbitrary: g) simp_all

lemma fold_add_line_lines_of:
  "directed g \<Longrightarrow>
     lines_of (fold (add_line r u) vs g) (a, b)
       = lines_of g (a, b) \<union> (if a = u \<and> b \<in> set vs then {r} else {})"
proof (induction vs arbitrary: g)
  case Nil
  then show ?case by simp
next
  case (Cons v vs)
  have "lines_of (fold (add_line r u) vs (add_line r u v g)) (a, b)
        = lines_of (add_line r u v g) (a, b) \<union> (if a = u \<and> b \<in> set vs then {r} else {})"
    using Cons.prems by (intro Cons.IH) simp
  also have "lines_of (add_line r u v g) (a, b)
        = lines_of g (a, b) \<union> (if (a, b) = (u, v) then {r} else {})"
    using Cons.prems by (rule add_line_lines_of)
  finally show ?case by auto
qed

lemma fold_add_line_dom:
  "directed g \<Longrightarrow>
     dom (map_of (edges (fold (add_line r u) vs g))) = dom (map_of (edges g)) \<union> {u} \<times> set vs"
proof (induction vs arbitrary: g)
  case Nil
  then show ?case by simp
next
  case (Cons v vs)
  have "dom (map_of (edges (fold (add_line r u) vs (add_line r u v g))))
        = dom (map_of (edges (add_line r u v g))) \<union> {u} \<times> set vs"
    using Cons.prems by (intro Cons.IH) simp
  also have "dom (map_of (edges (add_line r u v g))) = insert (u, v) (dom (map_of (edges g)))"
    using Cons.prems by (rule add_line_dom)
  finally show ?case by auto
qed

lemma fold_add_line_nonempty:
  "lines_nonempty g \<Longrightarrow> lines_nonempty (fold (add_line r u) vs g)"
  by (induction vs arbitrary: g) (simp_all add: add_line_nonempty)

lemma add_pair_edges_directed [simp]: "directed (add_pair_edges r ids g) = directed g"
  by (induction ids arbitrary: g) simp_all

lemma add_pair_edges_nodes [simp]: "nodes (add_pair_edges r ids g) = nodes g"
  by (induction ids arbitrary: g) simp_all

lemma add_pair_edges_lines_of:
  "directed g \<Longrightarrow>
     lines_of (add_pair_edges r ids g) (a, b)
       = lines_of g (a, b) \<union> (if before a b ids then {r} else {})"
proof (induction ids arbitrary: g)
  case Nil
  then show ?case by simp
next
  case (Cons u later)
  have "lines_of (add_pair_edges r later (fold (add_line r u) later g)) (a, b)
        = lines_of (fold (add_line r u) later g) (a, b)
          \<union> (if before a b later then {r} else {})"
    using Cons.prems by (intro Cons.IH) simp
  also have "lines_of (fold (add_line r u) later g) (a, b)
        = lines_of g (a, b) \<union> (if a = u \<and> b \<in> set later then {r} else {})"
    using Cons.prems by (rule fold_add_line_lines_of)
  finally show ?case by auto
qed

lemma add_pair_edges_dom:
  "directed g \<Longrightarrow>
     (a, b) \<in> dom (map_of (edges (add_pair_edges r ids g)))
       \<longleftrightarrow> (a, b) \<in> dom (map_of (edges g)) \<or> before a b ids"
proof (induction ids arbitrary: g)
  case Nil
  then show ?case by simp
next
  case (Cons u later)
  have "(a, b) \<in> dom (map_of (edges (add_pair_edges r later (fold (add_line r u) later g))))
        \<longleftrightarrow> (a, b) \<in> dom (map_of (edges (fold (add_line r u) later g))) \<or> before a b later"
    using Cons.prems by (intro Cons.IH) simp
  also have "dom (map_of (edges (fold (add_line r u) later g)))
        = dom (map_of (edges g)) \<union> {u} \<times> set later"
    using Cons.prems by (rule fold_add_line_dom)
  finally show ?case by auto
qed

lemma add_pair_edges_nonempty:
  "lines_nonempty g \<Longrightarrow> lines_nonempty (add_pair_edges r ids g)"
  by (induction ids arbitrary: g) (simp_all add: fold_add_line_nonempty)

lemma add_nodes_edges [simp]: "edges (add_nodes cx ids g) = edges g"
  by (induction ids arbitrary: g) (simp_all add: add_node_def)

lemma add_nodes_directed [simp]: "directed (add_nodes cx ids g) = directed g"
  by (induction ids arbitrary: g) (simp_all add: add_node_def)

lemma lines_of_add_nodes [simp]: "lines_of (add_nodes cx ids g) = lines_of g"
  by (simp add: lines_of_def fun_eq_iff)

lemma lines_nonempty_add_nodes [simp]: "lines_nonempty (add_nodes cx ids g) = lines_nonempty g"
  by (simp add: lines_nonempty_def)

lemma complex_ids_without_registry:
  "complexes cls = None \<Longrightarrow> SubwayGraph_complex_ids cls r d = Inr ids \<Longrightarrow> ids = []"
  by (auto simp: SubwayGraph_complex_ids_def split: sum.splits if_splits)

lemma process_directed [simp]: "directed (SubwayGraph_process cls r d g) = directed g"
  by (simp add: SubwayGraph_process_def split: sum.splits option.splits)

lemma process_nonempty:
  "lines_nonempty g \<Longrightarrow> lines_nonempty (SubwayGraph_process cls r d g)"
  by (simp add: SubwayGraph_process_def add_pair_edges_nonempty split: sum.splits option.splits)

lemma process_lines_of:
  assumes "directed g"
  shows "lines_of (SubwayGraph_process cls r d g) (a, b)
         = lines_of g (a, b) \<union> (if traverses cls r d a b then {r} else {})"
proof (cases "SubwayGraph_complex_ids cls r d")
  case (Inl e)
  then show ?thesis by (simp add: SubwayGraph_process_def traverses_def)
next
  case (Inr ids)
  show ?thesis
  proof (cases "complexes cls")
    case None
    with Inr have "ids = []" by (rule complex_ids_without_registry [rotated])
    with Inr None show ?thesis by (simp add: SubwayGraph_process_def traverses_def)
  next
    case (Some cx)
    have "directed (add_nodes cx ids g)" using assms by simp
    from add_pair_edges_lines_of [OF this, of r ids a b] Inr Some show ?thesis
      by (simp add: SubwayGraph_process_def traverses_def)
  qed
qed

lemma both_directions_lines_of:
  assumes "directed g"
  shows "lines_of (fold (SubwayGraph_process cls r) [0, 1] g) (a, b)
         = lines_of g (a, b)
           \<union> (if traverses cls r 0 a b \<or> traverses cls r 1 a b then {r} else {})"
proof -
  have "directed (SubwayGraph_process cls r 0 g)" using assms by simp
  from process_lines_of [OF this, of cls r 1 a b] process_lines_of [OF assms, of cls r 0 a b]
  show ?thesis by auto
qed

lemma routes_directed [simp]:
  "directed (fold (\<lambda>route. fold (SubwayGraph_process cls route) [0, 1]) routes g) = directed g"
  by (induction routes arbitrary: g) simp_all

lemma routes_nonempty:
  "lines_nonempty g \<Longrightarrow>
     lines_nonempty (fold (\<lambda>route. fold (SubwayGraph_process cls route) [0, 1]) routes g)"
  by (induction routes arbitrary: g) (simp_all add: process_nonempty)

lemma routes_lines_of:
  "directed g \<Longrightarrow>
     lines_of (fold (\<lambda>route. fold (SubwayGraph_process cls route) [0, 1]) routes g) (a, b)
       = lines_of g (a, b)
         \<union> {r \<in> set routes. traverses cls r 0 a b \<or> traverses cls r 1 a b}"
proof (induction routes arbitrary: g)
  case Nil
  then show ?case by simp
next
  case (Cons r routes)
  let ?g = "fold (SubwayGraph_process cls r) [0, 1] g"
  have d: "directed ?g" using Cons.prems by simp
  have "lines_of (fold (\<lambda>route. fold (SubwayGraph_process cls route) [0, 1]) routes ?g) (a, b)
        = lines_of ?g (a, b)
          \<union> {r \<in> set routes. traverses cls r 0 a b \<or> traverses cls r 1 a b}"
    using d by (rule Cons.IH)
  also have "lines_of ?g (a, b) = lines_of g (a, b)
          \<union> (if traverses cls r 0 a b \<or> traverses cls r 1 a b then {r} else {})"
    using Cons.prems by (rule both_directions_lines_of)
  finally show ?case by auto
qed

lemma sort_lines_directed [simp]: "directed (sort_lines g) = directed g"
  by (simp add: sort_lines_def)

lemma sort_lines_map_of:
  "map_of (edges (sort_lines g)) k = map_option sort (map_of (edges g) k)"
  by (simp add: sort_lines_def map_of_map)

lemma sort_lines_lines_of [simp]: "lines_of (sort_lines g) = lines_of g"
  by (auto simp: lines_of_def sort_lines_map_of fun_eq_iff split: option.splits)

lemma sort_lines_nonempty:
  assumes "lines_nonempty g"
  shows "lines_nonempty (sort_lines g)"
proof -
  have "sort lines \<noteq> []" if "lines \<noteq> []" for lines :: "string list"
    using that length_sort [of "\<lambda>x. x" lines] by (metis length_0_conv)
  with assms show ?thesis
    unfolding lines_nonempty_def sort_lines_def by auto
qed

lemma sort_lines_sorted:
  "directed g \<Longrightarrow> sorted (graph_connecting_lines (sort_lines g) a b)"
  by (simp add: graph_connecting_lines_def edge_lines_def edge_key_def sort_lines_map_of
      split: option.splits)

lemma directed_connecting_lines:
  "directed g \<Longrightarrow> set (graph_connecting_lines g a b) = lines_of g (a, b)"
  by (simp add: graph_connecting_lines_def edge_lines_def edge_key_def lines_of_def
      split: option.splits)

lemma directed_has_edge:
  assumes "directed g" "lines_nonempty g"
  shows "has_edge g a b \<longleftrightarrow> graph_connecting_lines g a b \<noteq> []"
proof (cases "map_of (edges g) (a, b)")
  case None
  with assms(1) show ?thesis
    by (simp add: has_edge_def graph_connecting_lines_def edge_lines_def edge_key_def)
next
  case (Some lines)
  then have "((a, b), lines) \<in> set (edges g)" by (rule map_of_SomeD)
  with assms(2) have "lines \<noteq> []" unfolding lines_nonempty_def by auto
  with Some assms(1) show ?thesis
    by (simp add: has_edge_def graph_connecting_lines_def edge_lines_def edge_key_def)
qed

lemma set_unique [simp]: "set (unique xs) = set xs"
  by (simp add: unique_def)

lemma trips_of_no_route:
  "route \<notin> route_id ` set ts \<Longrightarrow> trips_of ts route direction = []"
  by (auto simp: trips_of_def filter_empty_conv)

lemma no_trip_no_traversal:
  assumes "trips cls = Some ts" "route \<notin> route_id ` set ts"
  shows "\<not> traverses cls route direction a b"
proof -
  have t: "trips_of ts route direction = []" using assms(2) by (rule trips_of_no_route)
  have "SubwayGraph_ordered_stops cls route direction = Inr []
        \<or> (\<exists>e. SubwayGraph_ordered_stops cls route direction = Inl e)"
    using assms(1) t
    by (auto simp: SubwayGraph_ordered_stops_def trip_counts_def split: option.splits)
  then have "SubwayGraph_complex_ids cls route direction = Inr []
        \<or> (\<exists>e. SubwayGraph_complex_ids cls route direction = Inl e)"
    by (auto simp: SubwayGraph_complex_ids_def split: option.splits)
  then show ?thesis by (auto simp: traverses_def)
qed

lemma traverses_cong:
  assumes "trips cls = trips cls'" "stop_times cls = stop_times cls'"
    "complexes cls = complexes cls'"
  shows "traverses cls = traverses cls'"
  unfolding traverses_def SubwayGraph_complex_ids_def
    SubwayGraph_ordered_stops_cong [OF assms(1,2)] assms(3)
  by (rule refl)

lemma lines_of_empty [simp]: "lines_of (empty_graph d) k = {}"
  by (simp add: lines_of_def empty_graph_def)

lemma SubwayGraph_build_graph_lines:
  assumes "SubwayGraph_build_graph cls0 src = Inr cls" "G cls = Some g"
  shows "directed g \<and> lines_nonempty g \<and> sorted (graph_connecting_lines g a b)
         \<and> lines_of g (a, b) = {r. traverses cls r 0 a b \<or> traverses cls r 1 a b}"
proof -
  from assms(1) obtain cx where cx: "ComplexesData_init (complexes_csv src) (stops_txt src) = Inr cx"
    by (cases "ComplexesData_init (complexes_csv src) (stops_txt src)")
       (simp_all add: SubwayGraph_build_graph_def)
  define cls1 where "cls1 = cls0\<lparr>complexes := Some cx, stops := Some (stops_txt src),
      trips := Some (trips_txt src), stop_times := Some (stop_times_txt src)\<rparr>"
  define routes where "routes = unique (map route_id (trips_txt src))"
  define g1 where "g1 = fold (\<lambda>route. fold (SubwayGraph_process cls1 route) [0, 1]) routes
      (empty_graph True)"
  from assms(1) cx have cls: "cls = cls1\<lparr>G := Some (sort_lines g1)\<rparr>"
    by (simp add: SubwayGraph_build_graph_def Let_def cls1_def routes_def g1_def)
  with assms(2) have g: "g = sort_lines g1" by simp
  have "directed g1 = directed (empty_graph True)"
    unfolding g1_def by (rule routes_directed)
  then have d1: "directed g1" by (simp add: empty_graph_def)
  have n1: "lines_nonempty g1"
    unfolding g1_def by (rule routes_nonempty) (simp add: lines_nonempty_def empty_graph_def)
  have tr: "traverses cls = traverses cls1"
    by (rule traverses_cong) (simp_all add: cls)
  have ts: "trips cls1 = Some (trips_txt src)" by (simp add: cls1_def)
  have "lines_of g1 (a, b) = lines_of (empty_graph True) (a, b)
          \<union> {r \<in> set routes. traverses cls1 r 0 a b \<or> traverses cls1 r 1 a b}"
    unfolding g1_def by (rule routes_lines_of) (simp add: empty_graph_def)
  then have "lines_of g (a, b)
        = {r \<in> set routes. traverses cls1 r 0 a b \<or> traverses cls1 r 1 a b}"
    by (simp add: g)
  also have "\<dots> = {r. traverses cls1 r 0 a b \<or> traverses cls1 r 1 a b}"
  proof -
    have "r \<in> set routes" if "traverses cls1 r d a b" for r d
      using that no_trip_no_traversal [OF ts, of r d a b] by (auto simp: routes_def)
    then show ?thesis by blast
  qed
  finally have "lines_of g (a, b) = {r. traverses cls r 0 a b \<or> traverses cls r 1 a b}"
    by (simp add: tr)
  with d1 n1 show ?thesis
    by (simp add: g sort_lines_nonempty sort_lines_sorted)
qed

lemma set_collapse_repeats [simp]: "set (collapse_repeats xs) = set xs"
  by (induction xs rule: collapse_repeats.induct) auto

lemma before_collapse_repeats:
  "a \<noteq> b \<Longrightarrow> before a b (collapse_repeats xs) = before a b xs"
  by (induction xs rule: collapse_repeats.induct) auto

lemma before_iff_nth:
  "before a b xs \<longleftrightarrow> (\<exists>i j. i < j \<and> j < length xs \<and> xs ! i = a \<and> xs ! j = b)"
proof (induction xs)
  case Nil
  then show ?case by simp
next
  case (Cons u later)
  show ?case
  proof
    assume "before a b (u # later)"
    then consider "a = u" "b \<in> set later" | "before a b later" by auto
    then show "\<exists>i j. i < j \<and> j < length (u # later) \<and> (u # later) ! i = a \<and> (u # later) ! j = b"
    proof cases
      case 1
      then obtain j where "j < length later" "later ! j = b" by (auto simp: in_set_conv_nth)
      with 1 show ?thesis by (intro exI [of _ 0] exI [of _ "Suc j"]) simp
    next
      case 2
      with Cons.IH obtain i j where "i < j" "j < length later" "later ! i = a" "later ! j = b"
        by blast
      then show ?thesis by (intro exI [of _ "Suc i"] exI [of _ "Suc j"]) simp
    qed
  next
    assume "\<exists>i j. i < j \<and> j < length (u # later) \<and> (u # later) ! i = a \<and> (u # later) ! j = b"
    then obtain i j where ij: "i < j" "j < length (u # later)" "(u # later) ! i = a"
      "(u # later) ! j = b" by blast
    then obtain j' where j': "j = Suc j'" by (cases j) auto
    show "before a b (u # later)"
    proof (cases i)
      case 0
      with ij j' show ?thesis by auto
    next
      case (Suc i')
      with ij j' have "i' < j' \<and> j' < length later \<and> later ! i' = a \<and> later ! j' = b" by simp
      with Cons.IH show ?thesis by auto
    qed
  qed
qed

text \<open>
  What a SubwayGraph build does store: a route \<open>r\<close> is among the lines of the edge from
  \<open>a\<close> to \<open>b\<close> if and only if, for a direction whose sequence was computed without
  raising, \<open>a\<close> stands strictly before \<open>b\<close> in the sequence of (\<open>r\<close>, direction), repeats
  kept; the edge exists exactly when it has a line, and its lines are sorted. For two
  different complexes the same holds with the sequence collapsed at consecutive repeats.
\<close>

lemma line_membership_policy_B:
  assumes "SubwayGraph_build_graph cls0 src = Inr cls" "G cls = Some g"
  shows "(r \<in> set (graph_connecting_lines g a b)
           \<longleftrightarrow> (\<exists>d \<in> {0, 1}. \<exists>ids. SubwayGraph_complex_ids cls r d = Inr ids \<and> before a b ids))
       \<and> (has_edge g a b \<longleftrightarrow> graph_connecting_lines g a b \<noteq> [])
       \<and> sorted (graph_connecting_lines g a b)
       \<and> (a \<noteq> b \<longrightarrow>
            (r \<in> set (graph_connecting_lines g a b)
               \<longleftrightarrow> (\<exists>d \<in> {0, 1}. \<exists>ids. SubwayGraph_complex_ids cls r d = Inr ids
                      \<and> before a b (collapse_repeats ids))))"
proof -
  note f = SubwayGraph_build_graph_lines [OF assms, of a b]
  have tr: "traverses cls r d a b
            \<longleftrightarrow> (\<exists>ids. SubwayGraph_complex_ids cls r d = Inr ids \<and> before a b ids)" for d
    by (cases "SubwayGraph_complex_ids cls r d") (simp_all add: traverses_def)
  have m: "r \<in> set (graph_connecting_lines g a b)
           \<longleftrightarrow> (\<exists>d \<in> {0, 1}. \<exists>ids. SubwayGraph_complex_ids cls r d = Inr ids \<and> before a b ids)"
    using f by (simp add: directed_connecting_lines tr)
  have e: "has_edge g a b \<longleftrightarrow> graph_connecting_lines g a b \<noteq> []"
    using f by (simp add: directed_has_edge)
  from m e f show ?thesis by (simp add: before_collapse_repeats)
qed

lemma line_membership_policy_B_example:
  "built_graph (SubwayGraph_build_graph not_built src_two_routes) = Some (graph_two_routes True)
   \<and> and_then (SubwayGraph_build_graph not_built src_two_routes)
        (\<lambda>cls. SubwayGraph_complex_ids cls ''N'' 1) = Inr [''R01'', ''R02'']
   \<and> before ''R01'' ''R02'' [''R01'', ''R02'']
   \<and> ''R01'' \<noteq> ''R02''
   \<and> ''N'' \<in> set (graph_connecting_lines (graph_two_routes True) ''R01'' ''R02'')
   \<and> has_edge (graph_two_routes True) ''R01'' ''R02''
   \<and> ''E'' \<notin> set (graph_connecting_lines (graph_two_routes True) ''R01'' ''R02'')"
proof -
  from built_graph_SomeD [OF subway_two_routes] obtain cls where
    cls: "SubwayGraph_build_graph not_built src_two_routes = Inr cls"
         "G cls = Some (graph_two_routes True)" by blast
  have ids: "and_then (SubwayGraph_build_graph not_built src_two_routes)
        (\<lambda>cls. SubwayGraph_complex_ids cls ''N'' 1) = Inr [''R01'', ''R02'']"
    by code_simp
  with cls(1) have c: "SubwayGraph_complex_ids cls ''N'' 1 = Inr [''R01'', ''R02'']"
    by (simp add: and_then_def)
  have b: "before ''R01'' ''R02'' [''R01'', ''R02'']" by simp
  note inst = line_membership_policy_B [OF cls, of "''N''" "''R01''" "''R02''"]
  from c b have "\<exists>d \<in> {0, 1}. \<exists>ids. SubwayGraph_complex_ids cls ''N'' d = Inr ids
      \<and> before ''R01'' ''R02'' ids" by blast
  with inst have m: "''N'' \<in> set (graph_connecting_lines (graph_two_routes True) ''R01'' ''R02'')"
    by blast
  then have "graph_connecting_lines (graph_two_routes True) ''R01'' ''R02'' \<noteq> []" by auto
  with inst have e: "has_edge (graph_two_routes True) ''R01'' ''R02''" by blast
  have n: "''E'' \<notin> set (graph_connecting_lines (graph_two_routes True) ''R01'' ''R02'')"
    by code_simp
  have ne: "''R01'' \<noteq> ''R02''" by simp
  from subway_two_routes ids b ne m e n show ?thesis by (intro conjI)
qed

text \<open>
  C6, under both policies. Policy A: the trip of route L in \<open>src_two_complexes\<close> visits
  complex 1 and then complex 2, yet neither after one build of MTAComplexGraph nor after
  two does any line connect them: the first build skips every route, and the second
  resolves the complex ids that \<open>ordered_stops\<close> returns once more, as if they were stop
  ids, and drops them. Policy B: in \<open>src_one_complex\<close> the deduplicated sequence of route
  L is the single complex 1, yet route L is on an edge from complex 1 to itself.
\<close>

theorem line_membership_fails:
  "spec_route_sequence src_two_complexes ''L'' 0 = [''1'', ''2'']
   \<and> and_then (MTAComplexGraph_build_graph not_built src_two_complexes)
        (\<lambda>cls. MTAComplexGraph_connecting_lines cls ''1'' ''2'') = Inr []
   \<and> and_then (and_then (MTAComplexGraph_build_graph not_built src_two_complexes)
                 (\<lambda>cls. MTAComplexGraph_build_graph cls src_two_complexes))
        (\<lambda>cls. MTAComplexGraph_connecting_lines cls ''1'' ''2'') = Inr []
   \<and> and_then (and_then (MTAComplexGraph_build_graph not_built src_two_complexes)
                 (\<lambda>cls. MTAComplexGraph_build_graph cls src_two_complexes))
        (\<lambda>cls. MTAComplexGraph_ordered_stops cls ''L'' 0) = Inr [''1'', ''2'']
   \<and> spec_route_sequence src_one_complex ''L'' 0 = [''1'']
   \<and> and_then (SubwayGraph_build_graph not_built src_one_complex)
        (\<lambda>cls. connecting_lines cls ''1'' ''1'') = Inr [''L'']"
  by code_simp

lemma resolve_stops_kept:
  "resolve_stops cx raw acc = Inr ids \<Longrightarrow> ids = acc @ kept_sequence cx raw"
proof (induction raw arbitrary: acc)
  case Nil
  then show ?case by (simp add: kept_sequence_def map_filter_simps)
next
  case (Cons stop rest)
  show ?case
  proof (cases "get_complex_id_by_gtfs_stop_id cx stop")
    case (Inl e)
    with Cons.prems show ?thesis by simp
  next
    case (Inr found)
    show ?thesis
    proof (cases found)
      case None
      with Inr Cons.prems have "resolve_stops cx rest acc = Inr ids" by simp
      from Cons.IH [OF this] Inr None show ?thesis
        by (simp add: kept_sequence_def map_filter_simps resolved_def)
    next
      case (Some c)
      show ?thesis
      proof (cases "c = []")
        case True
        with Inr Some Cons.prems have "resolve_stops cx rest acc = Inr ids" by simp
        from Cons.IH [OF this] Inr Some True show ?thesis
          by (simp add: kept_sequence_def map_filter_simps resolved_def)
      next
        case False
        with Inr Some Cons.prems have "resolve_stops cx rest (acc @ [c]) = Inr ids" by simp
        from Cons.IH [OF this] Inr Some False show ?thesis
          by (simp add: kept_sequence_def map_filter_simps resolved_def)
      qed
    qed
  qed
qed

lemma first_visits_distinct:
  "first_visits cx raw acc = Inr ids \<Longrightarrow> distinct acc \<Longrightarrow> distinct ids"
proof (induction raw arbitrary: acc)
  case Nil
  then show ?case by simp
next
  case (Cons stop rest)
  show ?case
  proof (cases "get_complex_id_by_gtfs_stop_id cx stop")
    case (Inl e)
    with Cons.prems show ?thesis by simp
  next
    case (Inr found)
    show ?thesis
    proof (cases found)
      case None
      with Inr Cons.prems have "first_visits cx rest acc = Inr ids" by simp
      from Cons.IH [OF this Cons.prems(2)] show ?thesis .
    next
      case (Some c)
      show ?thesis
      proof (cases "c \<noteq> [] \<and> c \<notin> set acc")
        case True
        with Inr Some Cons.prems have "first_visits cx rest (acc @ [c]) = Inr ids" by simp
        moreover from True Cons.prems(2) have "distinct (acc @ [c])" by simp
        ultimately show ?thesis by (rule Cons.IH)
      next
        case False
        with Inr Some Cons.prems have "first_visits cx rest acc = Inr ids" by auto
        from Cons.IH [OF this Cons.prems(2)] show ?thesis .
      qed
    qed
  qed
qed

lemma MTAComplexGraph_ordered_stops_distinct:
  assumes "MTAComplexGraph_ordered_stops cls route direction = Inr visits"
  shows "distinct visits"
proof (cases "G cls")
  case None
  with assms show ?thesis by (simp add: MTAComplexGraph_ordered_stops_def)
next
  case g: (Some g)
  show ?thesis
  proof (cases "trips cls")
    case None
    with assms g show ?thesis by (simp add: MTAComplexGraph_ordered_stops_def)
  next
    case ts: (Some ts)
    show ?thesis
    proof (cases "trips_of ts route direction")
      case Nil
      with assms g ts show ?thesis by (simp add: MTAComplexGraph_ordered_stops_def)
    next
      case (Cons t others)
      show ?thesis
      proof (cases "stop_times cls")
        case None
        with assms g ts Cons show ?thesis by (simp add: MTAComplexGraph_ordered_stops_def)
      next
        case sts: (Some sts)
        show ?thesis
        proof (cases "complexes cls")
          case None
          with assms g ts Cons sts show ?thesis
            by (simp add: MTAComplexGraph_ordered_stops_def split: if_splits)
        next
          case (Some cx)
          with assms g ts Cons sts
          have "first_visits cx (trip_stops sts (trip_id t)) [] = Inr visits"
            by (simp add: MTAComplexGraph_ordered_stops_def)
          then show ?thesis by (rule first_visits_distinct) simp
        qed
      qed
    qed
  qed
qed

lemma has_node_add_nodes:
  "has_node (add_nodes cx ids g) c \<longleftrightarrow> has_node g c \<or> c \<in> set ids"
proof (induction ids arbitrary: g)
  case Nil
  then show ?case by simp
next
  case (Cons i ids)
  have "has_node (add_node g i a) c \<longleftrightarrow> has_node g c \<or> c = i" for a
    by (simp add: has_node_def add_node_def update_conv')
  with Cons.IH show ?case by (auto simp: has_node_def)
qed

lemma has_node_add_pair_edges [simp]:
  "has_node (add_pair_edges r ids g) c = has_node g c"
  by (simp add: has_node_def)

lemma directed_has_edge_dom:
  "directed g \<Longrightarrow> has_edge g a b \<longleftrightarrow> (a, b) \<in> dom (map_of (edges g))"
  by (auto simp: has_edge_def edge_lines_def edge_key_def)

text \<open>
  What SubwayGraph does with one (route, direction): its sequence of complex ids is the
  ordered raw-stop sequence with every unresolved stop dropped and nothing else changed,
  the nodes are registered and the edges emitted from that sequence, and so the graph
  gets an edge from a complex to itself exactly when the complex stands at two positions
  of it. A (route, direction) that raises leaves the graph as it was. The list that
  \<open>MTAComplexGraph.ordered_stops\<close> returns, in contrast, has no complex twice.
\<close>

lemma sequence_keeps_repeats:
  "(SubwayGraph_ordered_stops cls route direction = Inr raw \<and> complexes cls = Some cx
      \<and> SubwayGraph_complex_ids cls route direction = Inr ids \<longrightarrow>
        ids = kept_sequence cx raw
        \<and> SubwayGraph_process cls route direction g
            = add_pair_edges route ids (add_nodes cx ids g)
        \<and> (has_node (SubwayGraph_process cls route direction g) c
             \<longleftrightarrow> has_node g c \<or> c \<in> set ids)
        \<and> (directed g \<longrightarrow>
             (has_edge (SubwayGraph_process cls route direction g) c c
                \<longleftrightarrow> has_edge g c c \<or> before c c ids)))
   \<and> (SubwayGraph_complex_ids cls route direction = Inl e \<longrightarrow>
        SubwayGraph_process cls route direction g = g)
   \<and> (MTAComplexGraph_ordered_stops cls route direction = Inr visits \<longrightarrow> distinct visits)"
proof (intro conjI impI; (elim conjE)?)
  assume a: "SubwayGraph_ordered_stops cls route direction = Inr raw" "complexes cls = Some cx"
    "SubwayGraph_complex_ids cls route direction = Inr ids"
  then have "resolve_stops cx raw [] = Inr ids" by (simp add: SubwayGraph_complex_ids_def)
  from resolve_stops_kept [OF this] show "ids = kept_sequence cx raw" by simp
  from a show p: "SubwayGraph_process cls route direction g
            = add_pair_edges route ids (add_nodes cx ids g)"
    by (simp add: SubwayGraph_process_def)
  show "has_node (SubwayGraph_process cls route direction g) c
             \<longleftrightarrow> has_node g c \<or> c \<in> set ids"
    by (simp add: p has_node_add_nodes)
  assume "directed g"
  then have "directed (add_nodes cx ids g)" by simp
  from add_pair_edges_dom [OF this, of c c route ids] \<open>directed g\<close>
  show "has_edge (SubwayGraph_process cls route direction g) c c
                \<longleftrightarrow> has_edge g c c \<or> before c c ids"
    by (simp add: p directed_has_edge_dom)
next
  assume "SubwayGraph_complex_ids cls route direction = Inl e"
  then show "SubwayGraph_process cls route direction g = g"
    by (simp add: SubwayGraph_process_def)
next
  assume "MTAComplexGraph_ordered_stops cls route direction = Inr visits"
  then show "distinct visits" by (rule MTAComplexGraph_ordered_stops_distinct)
qed

lemma sequence_keeps_repeats_example:
  "SubwayGraph_ordered_stops cls_XY ''L'' 0 = Inr [''X'', ''Y'']
   \<and> complexes cls_XY = Some reg_XY
   \<and> SubwayGraph_complex_ids cls_XY ''L'' 0 = Inr [''1'', ''1'']
   \<and> kept_sequence reg_XY [''X'', ''Y''] = [''1'', ''1'']
   \<and> directed (empty_graph True)
   \<and> before ''1'' ''1'' [''1'', ''1'']
   \<and> has_edge (SubwayGraph_process cls_XY ''L'' 0 (empty_graph True)) ''1'' ''1''
   \<and> has_node (SubwayGraph_process cls_XY ''L'' 0 (empty_graph True)) ''1''
   \<and> SubwayGraph_complex_ids cls_XY ''L'' 1 = Inl IndexError
   \<and> SubwayGraph_process cls_XY ''L'' 1 (empty_graph True) = empty_graph True
   \<and> MTAComplexGraph_ordered_stops cls_XY ''L'' 0 = Inr [''1'']
   \<and> distinct [''1'']"
proof -
  have os: "SubwayGraph_ordered_stops cls_XY ''L'' 0 = Inr [''X'', ''Y'']" by code_simp
  have cx: "complexes cls_XY = Some reg_XY" by (simp add: cls_XY_def)
  have ci: "SubwayGraph_complex_ids cls_XY ''L'' 0 = Inr [''1'', ''1'']" by code_simp
  have ce: "SubwayGraph_complex_ids cls_XY ''L'' 1 = Inl IndexError" by code_simp
  have mo: "MTAComplexGraph_ordered_stops cls_XY ''L'' 0 = Inr [''1'']" by code_simp
  have d: "directed (empty_graph True)" by (simp add: empty_graph_def)
  have b: "before ''1'' ''1'' [''1'', ''1'']" by simp
  note inst = sequence_keeps_repeats [of cls_XY "''L''" 0 "[''X'', ''Y'']" reg_XY
      "[''1'', ''1'']" "empty_graph True" "''1''" IndexError "[''1'']"]
  from inst os cx ci have k: "[''1'', ''1''] = kept_sequence reg_XY [''X'', ''Y'']"
    by blast
  from inst os cx ci have "has_node (SubwayGraph_process cls_XY ''L'' 0 (empty_graph True)) ''1''
      \<longleftrightarrow> has_node (empty_graph True) ''1'' \<or> ''1'' \<in> set [''1'', ''1'']"
    by blast
  then have hn: "has_node (SubwayGraph_process cls_XY ''L'' 0 (empty_graph True)) ''1''"
    by simp
  from inst os cx ci d have "has_edge (SubwayGraph_process cls_XY ''L'' 0 (empty_graph True)) ''1'' ''1''
      \<longleftrightarrow> has_edge (empty_graph True) ''1'' ''1'' \<or> before ''1'' ''1'' [''1'', ''1'']"
    by blast
  with b have he: "has_edge (SubwayGraph_process cls_XY ''L'' 0 (empty_graph True)) ''1'' ''1''"
    by blast
  from sequence_keeps_repeats [of cls_XY "''L''" 1 "[]" reg_XY "[]"
      "empty_graph True" "''1''" IndexError "[]"] ce
  have sk: "SubwayGraph_process cls_XY ''L'' 1 (empty_graph True) = empty_graph True" by blast
  from inst mo have dv: "distinct [''1'']" by blast
  from os cx ci k [symmetric] d b he hn ce sk mo dv show ?thesis by (intro conjI)
qed

text \<open>
  C3, at two consecutive stops of one complex. In \<open>src_one_complex\<close> the trip of route L
  stops at X and then at Y, both of complex 1. The sequence that \<open>SubwayGraph.build_graph\<close>
  uses repeats complex 1, where the claim has the run collapsed to the single complex 1,
  and the built graph has an edge from complex 1 to itself, where the claim has none.
  The loop of \<open>MTAComplexGraph.ordered_stops\<close> does drop the repeat.
\<close>

theorem SubwayGraph_consecutive_repeat_kept:
  "and_then (SubwayGraph_build_graph not_built src_one_complex)
      (\<lambda>cls. SubwayGraph_ordered_stops cls ''L'' 0) = Inr [''X'', ''Y'']
   \<and> and_then (SubwayGraph_build_graph not_built src_one_complex)
      (\<lambda>cls. SubwayGraph_complex_ids cls ''L'' 0) = Inr [''1'', ''1'']
   \<and> spec_route_sequence src_one_complex ''L'' 0 = [''1'']
   \<and> built_graph (SubwayGraph_build_graph not_built src_one_complex)
     = Some \<lparr>directed = True,
             nodes = [(''1'', \<lparr>stop_name = ''Upper Level'', gtfs_ids = Some [''X'', ''Y'']\<rparr>)],
             edges = [((''1'', ''1''), [''L''])]\<rparr>
   \<and> and_then (SubwayGraph_build_graph not_built src_one_complex)
      (\<lambda>cls. connecting_lines cls ''1'' ''1'') = Inr [''L'']
   \<and> and_then (MTAComplexGraph_build_graph not_built src_one_complex)
      (\<lambda>cls. MTAComplexGraph_ordered_stops cls ''L'' 0) = Inr [''1'']"
  by code_simp

end
